theory Spec2Isabelle
  imports
    Complex_Main
    "HOL-Library.Word"
    "HOL-Library.Monad_Syntax"
    "HOL-Library.AList"
    "HOL-Library.Char_ord"
    "HOL-Library.List_Lexorder"
begin

chapter \<open>TAPA: task-graph extraction of upper-level tasks, and two utility functions\<close>

text \<open>
  The development embeds \<^verbatim>\<open>backend/tapa/task.cpp\<close> (the metadata part of
  \<^verbatim>\<open>Visitor::ProcessUpperLevelTask\<close>, \<^verbatim>\<open>Visitor::EvalAsInt\<close>,
  \<^verbatim>\<open>Visitor::GetFrtInterface\<close> and the branch of \<^verbatim>\<open>Visitor::VisitFunctionDecl\<close> that
  calls them) and \<^verbatim>\<open>round_up_div\<close>/\<^verbatim>\<open>round_up\<close> of \<^verbatim>\<open>src/tapa/util.h\<close>.

  Conventions.
  \<^item> A run of the C++ code that does not return normally (a failed \<^verbatim>\<open>assert\<close>, a null
    pointer dereference, an out-of-range access, a division by zero) is the value
    \<open>None\<close>; a normal return is \<open>Some\<close> of the new state.
  \<^item> The state is what the pass mutates: the JSON metadata of the current task and the list
    of diagnostics reported to the diagnostics engine, in order.
  \<^item> A JSON object is an association list with distinct keys, updated with
    \<open>AList.update\<close> and read with \<open>map_of\<close>; where the code iterates over an object the
    model visits the keys in increasing order, as the \<^verbatim>\<open>std::map\<close> behind the JSON
    library does.
  \<^item> The statements of \<^verbatim>\<open>ProcessUpperLevelTask\<close> that only write text to the rewriter
    (lines 257--351 and 647--652) do not touch the metadata or the diagnostics and are left out.
\<close>

section \<open>Utility arithmetic (\<^verbatim>\<open>src/tapa/util.h\<close>)\<close>

text \<open>
  \<^verbatim>\<open>template <uint64_t N> uint64_t round_up_div(uint64_t i) { return ((i - 1) / N + 1); }\<close>
  \<^verbatim>\<open>template <uint64_t N> uint64_t round_up(uint64_t i) { return ((i - 1) / N + 1) * N; }\<close>
  The arithmetic is that of 64-bit words; the division by \<open>N = 0\<close> has no value.
\<close>

definition round_up_div :: "64 word \<Rightarrow> 64 word \<Rightarrow> 64 word option" where
  "round_up_div N i = (if N = 0 then None else Some ((i - 1) div N + 1))"

definition round_up :: "64 word \<Rightarrow> 64 word \<Rightarrow> 64 word option" where
  "round_up N i = (if N = 0 then None else Some (((i - 1) div N + 1) * N))"

section \<open>Decimal rendering (\<^verbatim>\<open>std::to_string\<close>)\<close>

definition digit_char :: "nat \<Rightarrow> char" where
  "digit_char d = char_of (48 + d)"

function to_string :: "nat \<Rightarrow> string" where
  "to_string n = (if n < 10 then [digit_char n] else to_string (n div 10) @ [digit_char (n mod 10)])"
  by pat_completeness auto
termination
  by (relation "measure id") auto

declare to_string.simps [simp del]

definition to_string_int :: "int \<Rightarrow> string" where
  "to_string_int v = (if v < 0 then CHR ''-'' # to_string (nat (- v)) else to_string (nat v))"

section \<open>The syntax tree, as far as the pass reads it\<close>

text \<open>
  The class templates of the \<^verbatim>\<open>tapa\<close> namespace that \<^verbatim>\<open>IsTapaType\<close> is asked about.
\<close>

datatype TapaClass =
    c_mmap | c_async_mmap | c_mmaps | c_async_mmaps
  | c_istream | c_ostream | c_istreams | c_ostreams
  | c_stream | c_streams | c_seq

text \<open>
  What the front end reports about a type: \<open>tapa_class\<close> is the \<^verbatim>\<open>tapa\<close> class template
  the type specialises (\<open>None\<close> for any other type, such as \<^verbatim>\<open>int\<close>), \<open>as_string\<close> is
  \<^verbatim>\<open>getAsString()\<close>, \<open>type_width\<close> is \<^verbatim>\<open>getTypeInfo(type).Width\<close>, \<open>elem_type\<close> is
  \<^verbatim>\<open>GetMmapElemType\<close>/\<^verbatim>\<open>GetStreamElemType\<close>, \<open>elem_width\<close> and \<open>elem_const\<close> are the
  width and the const-qualification of template argument 0, \<open>template_arg1\<close> is the value of
  template argument 1 as \<^verbatim>\<open>EvaluateAsInt\<close> gives it (\<open>None\<close> when it is not a compile-time
  integer), and \<open>array_size\<close> is \<^verbatim>\<open>GetArraySize\<close>.
\<close>

record QualType =
  tapa_class :: "TapaClass option"
  as_string :: string
  type_width :: nat
  elem_type :: string
  elem_width :: nat
  elem_const :: bool
  template_arg1 :: "int option"
  array_size :: int

record ParmVarDecl =
  param_name :: string
  param_type :: QualType

text \<open>
  An argument expression. \<open>DeclRefExpr n ty v f\<close> is a reference to the declaration named
  \<open>n\<close> of type \<open>ty\<close>; \<open>v\<close> is the result of \<^verbatim>\<open>EvaluateAsInt\<close> (\<open>None\<close> when the expression
  is not a compile-time integer) and \<open>f\<close> the parameters of
  \<^verbatim>\<open>getDecl()->getAsFunction()\<close> (\<open>None\<close> for a null pointer). \<open>OtherExpr c ty v\<close> is an
  expression of any other class, \<open>c\<close> its \<^verbatim>\<open>getStmtClassName()\<close>.
\<close>

datatype Expr =
    DeclRefExpr string QualType "int option" "ParmVarDecl list option"
  | CXXOperatorCallExpr "Expr list" QualType "int option"
  | StringLiteral string
  | OtherExpr string QualType "int option"

datatype TemplateArgument = Integral "64 word" | NonIntegral

text \<open>
  A call of \<^verbatim>\<open>tapa::task::invoke\<close>: the template arguments of the callee when
  \<^verbatim>\<open>getCalleeDecl()\<close> is a \<^verbatim>\<open>CXXMethodDecl\<close> (\<open>None\<close> otherwise), and the runtime
  arguments.
\<close>

record CXXMemberCallExpr =
  template_args :: "TemplateArgument list option"
  call_args :: "Expr list"

text \<open>
  A local declaration: \<^verbatim>\<open>GetTapaStreamDecl\<close> succeeds on \<open>StreamType\<close> (element type and
  depth, template arguments 0 and 1), \<^verbatim>\<open>GetTapaStreamsDecl\<close> on \<open>StreamsType\<close> (element
  type, the array size that \<^verbatim>\<open>GetArraySize\<close> returns, and the depth, template argument 2).
\<close>

datatype VarType =
    StreamType string "64 word"
  | StreamsType string int "64 word"
  | OtherVarType

record VarDecl =
  var_name :: string
  var_type :: VarType

text \<open>
  A declaration of a declaration statement: a variable (\<^verbatim>\<open>VarDecl\<close>) or a declaration of
  another class.
\<close>

datatype Decl = Variable VarDecl | OtherDecl

text \<open>
  A child of the function body: a \<^verbatim>\<open>DeclStmt\<close> with the declarations of its group, the
  first one (\<^verbatim>\<open>*decl_begin()\<close>) and those after it, so that
  \<^verbatim>\<open>tapa::stream<int, 2> c, d;\<close> is one statement with \<open>c\<close> first and \<open>d\<close> after it; an
  \<^verbatim>\<open>ExprWithCleanups\<close> with the string of its type and the \<^verbatim>\<open>invoke\<close> calls below it in
  the order \<^verbatim>\<open>GetTapaInvokes\<close> collects them; or anything else (a statement of another
  class, with whatever it contains).
\<close>

datatype Stmt =
    DeclStmt Decl "Decl list"
  | ExprWithCleanups string "CXXMemberCallExpr list"
  | OtherStmt

record FunctionDecl =
  func_name :: string
  parameters :: "ParmVarDecl list"
  body :: "Stmt list"
  text_before_body :: string
  text_after_body :: string

section \<open>Diagnostics and metadata\<close>

datatype Level = Remark | Warning | Error

text \<open>
  One constructor per \<^verbatim>\<open>getCustomDiagID\<close> of the file, with the strings added to the
  report: \<^verbatim>\<open>unexpected invocation: %0\<close>, \<^verbatim>\<open>invocation #%0 accesses '%1[%2]'\<close> (with the
  type string as a fourth argument), \<^verbatim>\<open>tapa::stream '%0' consumed more than once\<close>,
  \<^verbatim>\<open>tapa::stream '%0' produced more than once\<close>, \<^verbatim>\<open>unexpected argument: %0\<close>,
  \<^verbatim>\<open>unused stream: %0\<close>, \<^verbatim>\<open>consumed but not produced stream: %0\<close>,
  \<^verbatim>\<open>produced but not consumed stream: %0\<close> and
  \<^verbatim>\<open>fail to evaluate as integer at compile time\<close>.
\<close>

datatype Diagnostic =
    UnexpectedInvocation string
  | VectorIndexWraparound string string string string
  | ChannelConsumedTwice string
  | ChannelProducedTwice string
  | UnexpectedArgument string
  | UnusedStream string
  | ConsumedNotProduced string
  | ProducedNotConsumed string
  | FailToEvaluateAsInteger

fun level :: "Diagnostic \<Rightarrow> Level" where
  "level (UnexpectedInvocation _) = Error"
| "level (VectorIndexWraparound _ _ _ _) = Remark"
| "level (ChannelConsumedTwice _) = Error"
| "level (ChannelProducedTwice _) = Error"
| "level (UnexpectedArgument _) = Error"
| "level (UnusedStream _) = Warning"
| "level (ConsumedNotProduced _) = Error"
| "level (ProducedNotConsumed _) = Error"
| "level FailToEvaluateAsInteger = Error"

text \<open>
  \<^verbatim>\<open>tasks: {task_name: [{step, name?, args: {port_name: {cat, arg}}}]}\<close>,
  \<^verbatim>\<open>fifos: {fifo_name: {depth, produced_by, consumed_by}}\<close>,
  \<^verbatim>\<open>ports: [{name, cat, width, type}]\<close>. An edge is the pair of a task name and the
  index of an instance in that task's list. A JSON key that is absent is \<open>None\<close>.
\<close>

record Instance =
  inst_step :: int
  inst_name :: "string option"
  inst_args :: "(string \<times> string \<times> string) list"

record Fifo =
  depth :: "64 word option"
  produced_by :: "(string \<times> nat) option"
  consumed_by :: "(string \<times> nat) option"

record Port =
  port_name :: string
  port_cat :: string
  port_width :: nat
  port_type :: string

record State =
  frt_interface :: "string option"
  ports :: "Port list"
  fifos :: "(string \<times> Fifo) list"
  tasks :: "(string \<times> Instance list) list"
  diagnostics :: "Diagnostic list"

definition Report :: "Diagnostic \<Rightarrow> State \<Rightarrow> State" where
  "Report d st = st\<lparr>diagnostics := diagnostics st @ [d]\<rparr>"

section \<open>Helpers declared outside the two source files\<close>

text \<open>
  Modelled from the spec: \<^verbatim>\<open>IsTapaType\<close> is declared in \<^verbatim>\<open>type.h\<close>, which is not among
  the sources. The spec's type classifier matches the template name of the type against a
  pattern; the pattern is given here as the list of the class templates it matches in full
  (the chain of tests at lines 552--584 has a separate branch for \<^verbatim>\<open>async_mmap\<close> after
  \<^verbatim>\<open>mmap\<close> and for \<^verbatim>\<open>istreams\<close> after \<^verbatim>\<open>istream\<close>, so a pattern does not match a
  longer name). On a null expression the helper has no value; callers model that.
\<close>

definition IsTapaType :: "QualType \<Rightarrow> TapaClass list \<Rightarrow> bool" where
  "IsTapaType ty pat = (case tapa_class ty of None \<Rightarrow> False | Some c \<Rightarrow> c \<in> set pat)"

text \<open>
  Modelled from the spec: \<^verbatim>\<open>IsStreamInterface\<close> is declared in \<^verbatim>\<open>type.h\<close>. It holds
  of the singular stream parameter types: lines 315--331 test \<^verbatim>\<open>istream\<close> and
  \<^verbatim>\<open>ostream\<close> inside it and \<^verbatim>\<open>istreams\<close>, \<^verbatim>\<open>ostreams\<close> in the branches after it.
\<close>

definition IsStreamInterface :: "QualType \<Rightarrow> bool" where
  "IsStreamInterface ty = IsTapaType ty [c_istream, c_ostream]"

text \<open>
  Modelled from the spec: \<^verbatim>\<open>ArrayNameAt\<close> is declared in \<^verbatim>\<open>type.h\<close>. The spec gives
  the array element name \<^verbatim>\<open>base[index]\<close>; line 325 uses the result as a C++ expression.
\<close>

definition ArrayNameAt :: "string \<Rightarrow> int \<Rightarrow> string" where
  "ArrayNameAt nm i = nm @ ''['' @ to_string_int i @ '']''"

section \<open>\<^verbatim>\<open>Visitor::EvalAsInt\<close> (lines 812--825)\<close>

definition EvalAsInt :: "int option \<Rightarrow> State \<Rightarrow> int \<times> State" where
  "EvalAsInt e st =
     (case e of
        Some v \<Rightarrow> (v, st)
      | None \<Rightarrow> (- 1, Report FailToEvaluateAsInteger st))"

fun EvaluateAsInt :: "Expr \<Rightarrow> int option" where
  "EvaluateAsInt (DeclRefExpr n ty v f) = v"
| "EvaluateAsInt (CXXOperatorCallExpr es ty v) = v"
| "EvaluateAsInt (StringLiteral s) = None"
| "EvaluateAsInt (OtherExpr c ty v) = v"

fun getStmtClassName :: "Expr \<Rightarrow> string" where
  "getStmtClassName (DeclRefExpr n ty v f) = ''DeclRefExpr''"
| "getStmtClassName (CXXOperatorCallExpr es ty v) = ''CXXOperatorCallExpr''"
| "getStmtClassName (StringLiteral s) = ''StringLiteral''"
| "getStmtClassName (OtherExpr c ty v) = c"

text \<open>\<^verbatim>\<open>IsTapaType(arg, "seq")\<close> on an argument; a string literal has an array type.\<close>

fun arg_is_seq :: "Expr \<Rightarrow> bool" where
  "arg_is_seq (DeclRefExpr n ty v f) = IsTapaType ty [c_seq]"
| "arg_is_seq (CXXOperatorCallExpr es ty v) = IsTapaType ty [c_seq]"
| "arg_is_seq (StringLiteral s) = False"
| "arg_is_seq (OtherExpr c ty v) = IsTapaType ty [c_seq]"

text \<open>\<^verbatim>\<open>dyn_cast<DeclRefExpr>\<close>: the name, the type and the function of the declaration.\<close>

fun as_decl_ref :: "Expr \<Rightarrow> (string \<times> QualType \<times> ParmVarDecl list option) option" where
  "as_decl_ref (DeclRefExpr n ty v f) = Some (n, ty, f)"
| "as_decl_ref _ = None"

fun as_op_call :: "Expr \<Rightarrow> Expr list option" where
  "as_op_call (CXXOperatorCallExpr es ty v) = Some es"
| "as_op_call _ = None"

fun as_string_literal :: "Expr \<Rightarrow> string option" where
  "as_string_literal (StringLiteral s) = Some s"
| "as_string_literal _ = None"

text \<open>The conversion of an \<^verbatim>\<open>int64_t\<close> to \<^verbatim>\<open>uint64_t\<close>.\<close>

definition to_uint64 :: "int \<Rightarrow> nat" where
  "to_uint64 v = nat (v mod 2 ^ 64)"

section \<open>The \<^verbatim>\<open>get_name\<close> lambda (lines 444--469)\<close>

text \<open>
  \<open>decl_ref\<close> is the result of \<^verbatim>\<open>dyn_cast<DeclRefExpr>(arg)\<close>; \<^verbatim>\<open>IsTapaType\<close> on a null
  \<open>decl_ref\<close> is reached only when \<open>is_vec\<close> holds, and has no value. \<open>length\<close> is an
  \<^verbatim>\<open>int64_t\<close> and \<open>i\<close> a \<^verbatim>\<open>uint64_t\<close>, so the comparison and the remainder are unsigned;
  the remainder by 0 has no value.
\<close>

definition get_name ::
  "bool \<Rightarrow> string \<Rightarrow> nat \<Rightarrow> (string \<times> QualType \<times> ParmVarDecl list option) option \<Rightarrow>
   State \<Rightarrow> (string \<times> State) option" where
  "get_name is_vec nm i decl_ref st =
     (if is_vec then
        (case decl_ref of
           None \<Rightarrow> None
         | Some (dn, ty, f) \<Rightarrow>
             if IsTapaType ty [c_async_mmaps, c_streams] then
               (let (len, st1) = EvalAsInt (template_arg1 ty) st;
                    ulen = to_uint64 len
                in if ulen = 0 then None
                   else Some (ArrayNameAt nm (int (i mod ulen)),
                              if i \<ge> ulen
                              then Report (VectorIndexWraparound (to_string i) dn
                                             (to_string (i mod ulen)) (as_string ty)) st1
                              else st1))
             else Some (nm, st))
      else Some (nm, st))"

section \<open>The registration lambdas (lines 509--551)\<close>

text \<open>
  \<^verbatim>\<open>metadata["tasks"][task_name]\<close> inserts a null value when the key is absent; null and
  the empty array are both the empty list here (both have size 0 and no last element).
  \<^verbatim>\<open>size() - 1\<close> is computed in \<^verbatim>\<open>size_t\<close>.
\<close>

definition touch_task :: "string \<Rightarrow> State \<Rightarrow> State" where
  "touch_task task_name st =
     (if map_of (tasks st) task_name = None
      then st\<lparr>tasks := AList.update task_name [] (tasks st)\<rparr> else st)"

definition tasks_size :: "State \<Rightarrow> string \<Rightarrow> nat" where
  "tasks_size st task_name = (case map_of (tasks st) task_name of None \<Rightarrow> 0 | Some l \<Rightarrow> length l)"

definition size_minus_one :: "nat \<Rightarrow> nat" where
  "size_minus_one n = nat ((int n - 1) mod 2 ^ 64)"

definition empty_fifo :: Fifo where
  "empty_fifo = \<lparr>depth = None, produced_by = None, consumed_by = None\<rparr>"

definition lookup_fifo :: "State \<Rightarrow> string \<Rightarrow> Fifo" where
  "lookup_fifo st a = (case map_of (fifos st) a of None \<Rightarrow> empty_fifo | Some f \<Rightarrow> f)"

text \<open>
  \<^verbatim>\<open>(*metadata["tasks"][task_name].rbegin())[...] = ...\<close>: the last instance of the task's
  list is updated; there is none when the list is absent or empty.
\<close>

definition update_last_instance :: "string \<Rightarrow> (Instance \<Rightarrow> Instance) \<Rightarrow> State \<Rightarrow> State option" where
  "update_last_instance task_name upd st =
     (case map_of (tasks st) task_name of
        None \<Rightarrow> None
      | Some insts \<Rightarrow>
          if insts = [] then None
          else Some (st\<lparr>tasks := AList.update task_name (butlast insts @ [upd (last insts)]) (tasks st)\<rparr>))"

definition register_arg ::
  "string \<Rightarrow> string \<Rightarrow> string \<Rightarrow> string \<Rightarrow> string \<Rightarrow> string \<Rightarrow> State \<Rightarrow> State option" where
  "register_arg task_name arg_name pname param_cat arg port st =
     (let a = (if arg = [] then arg_name else arg);
          p = (if port = [] then pname else port)
      in update_last_instance task_name
           (\<lambda>inst. inst\<lparr>inst_args := AList.update p (param_cat, a) (inst_args inst)\<rparr>) st)"

definition register_consumer :: "string \<Rightarrow> string \<Rightarrow> string \<Rightarrow> State \<Rightarrow> State" where
  "register_consumer task_name arg_name arg st =
     (let a = (if arg = [] then arg_name else arg);
          f = lookup_fifo st a;
          st1 = (if consumed_by f \<noteq> None then Report (ChannelConsumedTwice a) st else st);
          st2 = touch_task task_name st1
      in st2\<lparr>fifos := AList.update a
                 (f\<lparr>consumed_by := Some (task_name, size_minus_one (tasks_size st2 task_name))\<rparr>)
                 (fifos st2)\<rparr>)"

definition register_producer :: "string \<Rightarrow> string \<Rightarrow> string \<Rightarrow> State \<Rightarrow> State" where
  "register_producer task_name arg_name arg st =
     (let a = (if arg = [] then arg_name else arg);
          f = lookup_fifo st a;
          st1 = (if produced_by f \<noteq> None then Report (ChannelProducedTwice a) st else st);
          st2 = touch_task task_name st1
      in st2\<lparr>fifos := AList.update a
                 (f\<lparr>produced_by := Some (task_name, size_minus_one (tasks_size st2 task_name))\<rparr>)
                 (fifos st2)\<rparr>)"

section \<open>Binding one argument to its parameter (lines 552--591)\<close>

text \<open>
  The loops over the slots of an \<^verbatim>\<open>istreams\<close>/\<^verbatim>\<open>ostreams\<close> parameter
  (lines 573--577 and 580--584); \<open>reg\<close> is \<open>register_consumer\<close> or \<open>register_producer\<close>.
\<close>

fun bind_slots ::
  "(string \<Rightarrow> State \<Rightarrow> State) \<Rightarrow> string \<Rightarrow> string \<Rightarrow> string \<Rightarrow> string \<Rightarrow> nat list \<Rightarrow>
   State \<Rightarrow> State option" where
  "bind_slots reg task_name arg_name pname param_cat [] st = Some st"
| "bind_slots reg task_name arg_name pname param_cat (j # js) st =
     (let arg = ArrayNameAt arg_name (int j)
      in do {
        st1 \<leftarrow> register_arg task_name arg_name pname param_cat arg (ArrayNameAt pname (int j))
                 (reg arg st);
        bind_slots reg task_name arg_name pname param_cat js st1
      })"

definition bind_arg ::
  "bool \<Rightarrow> nat \<Rightarrow> string \<Rightarrow> (string \<times> QualType \<times> ParmVarDecl list option) option \<Rightarrow> bool \<Rightarrow>
   string \<Rightarrow> ParmVarDecl \<Rightarrow> State \<Rightarrow> State option" where
  "bind_arg is_vec i_vec arg_name decl_ref is_seq task_name param st =
     (let pn = param_name param; pt = param_type param in
      if IsTapaType pt [c_mmap] then
        do {
          (a, st1) \<leftarrow> get_name is_vec arg_name i_vec decl_ref st;
          register_arg task_name arg_name pn ''mmap'' a [] st1
        }
      else if IsTapaType pt [c_async_mmap] then
        do {
          (a, st1) \<leftarrow> get_name is_vec arg_name i_vec decl_ref st;
          register_arg task_name arg_name pn ''async_mmap'' a [] st1
        }
      else if IsTapaType pt [c_istream] then
        do {
          (a, st1) \<leftarrow> get_name is_vec arg_name i_vec decl_ref st;
          register_arg task_name arg_name pn ''istream'' a []
            (register_consumer task_name arg_name a st1)
        }
      else if IsTapaType pt [c_ostream] then
        do {
          (a, st1) \<leftarrow> get_name is_vec arg_name i_vec decl_ref st;
          register_arg task_name arg_name pn ''ostream'' a []
            (register_producer task_name arg_name a st1)
        }
      else if IsTapaType pt [c_istreams] then
        bind_slots (register_consumer task_name arg_name) task_name arg_name pn ''istream''
          [0..<nat (array_size pt)] st
      else if IsTapaType pt [c_ostreams] then
        bind_slots (register_producer task_name arg_name) task_name arg_name pn ''ostream''
          [0..<nat (array_size pt)] st
      else if is_seq then
        register_arg task_name arg_name pn ''scalar'' (''64'd'' @ to_string i_vec) [] st
      else
        register_arg task_name arg_name pn ''scalar'' [] [] st)"

section \<open>One runtime argument of an invocation (lines 472--608)\<close>

text \<open>
  The name of the argument (lines 481--497). An operator call takes the name of its first
  argument, which must be a \<^verbatim>\<open>DeclRefExpr\<close>, and the value of its second; a compile-time
  integer overrides both with \<^verbatim>\<open>64'd\<close> and the value as \<^verbatim>\<open>uint64_t\<close>.
\<close>

definition resolve_arg_name ::
  "(string \<times> QualType \<times> ParmVarDecl list option) option \<Rightarrow> Expr list option \<Rightarrow> int option \<Rightarrow>
   State \<Rightarrow> (string \<times> State) option" where
  "resolve_arg_name decl_ref op_call arg_int st =
     do {
       (n1, st1) \<leftarrow>
         (case op_call of
            None \<Rightarrow> Some ((case decl_ref of Some (dn, ty, f) \<Rightarrow> dn | None \<Rightarrow> []), st)
          | Some es \<Rightarrow>
              if length es < 2 then None
              else (case as_decl_ref (es ! 0) of
                      None \<Rightarrow> None
                    | Some (an, ty, f) \<Rightarrow>
                        (let (idx, st') = EvalAsInt (EvaluateAsInt (es ! 1)) st
                         in Some (ArrayNameAt an idx, st'))));
       Some (case arg_int of
               Some v \<Rightarrow> ''64'd'' @ to_string (to_uint64 v)
             | None \<Rightarrow> n1, st1)
     }"

text \<open>
  \<^verbatim>\<open>task->getParamDecl(has_name ? i - 2 : i - 1)\<close>, with \<open>i\<close> an \<^verbatim>\<open>unsigned\<close>; an index
  outside the parameter list has no value.
\<close>

definition getParamDecl :: "ParmVarDecl list \<Rightarrow> bool \<Rightarrow> nat \<Rightarrow> ParmVarDecl option" where
  "getParamDecl params has_name i =
     (let idx = (if has_name then int i - 2 else int i - 1) mod 2 ^ 32
      in if idx < int (length params) then Some (params ! nat idx) else None)"

definition push_instance :: "string \<Rightarrow> int \<Rightarrow> State \<Rightarrow> State" where
  "push_instance task_name step st =
     st\<lparr>tasks := AList.update task_name
                    ((case map_of (tasks st) task_name of None \<Rightarrow> [] | Some l \<Rightarrow> l)
                     @ [\<lparr>inst_step = step, inst_name = None, inst_args = []\<rparr>])
                    (tasks st)\<rparr>"

text \<open>
  The loop variables that live across the arguments and replicas of one invocation are
  \<open>task_name\<close> and \<open>task\<close> (\<open>None\<close> is the null pointer).
\<close>

type_synonym LoopVars = "string \<times> ParmVarDecl list option"

definition process_arg ::
  "int \<Rightarrow> bool \<Rightarrow> bool \<Rightarrow> nat \<Rightarrow> nat \<Rightarrow> Expr \<Rightarrow> LoopVars \<times> State \<Rightarrow> (LoopVars \<times> State) option" where
  "process_arg step has_name is_vec i_vec i arg s =
     (case s of ((task_name, task), st) \<Rightarrow>
      (let decl_ref = as_decl_ref arg;
           arg_int = EvaluateAsInt arg;
           op_call = as_op_call arg;
           is_seq = arg_is_seq arg
       in if decl_ref \<noteq> None \<or> op_call \<noteq> None \<or> arg_int \<noteq> None \<or> is_seq then
            do {
              (arg_name, st1) \<leftarrow> resolve_arg_name decl_ref op_call arg_int st;
              if i = 0 then
                (case decl_ref of
                   None \<Rightarrow> None
                 | Some (dn, ty, f) \<Rightarrow> Some ((arg_name, f), push_instance arg_name step st1))
              else
                (case task of
                   None \<Rightarrow> None
                 | Some params \<Rightarrow>
                     do {
                       param \<leftarrow> getParamDecl params has_name i;
                       st2 \<leftarrow> bind_arg is_vec i_vec arg_name decl_ref is_seq task_name param st1;
                       Some ((task_name, task), st2)
                     })
            }
          else
            (case as_string_literal arg of
               Some str \<Rightarrow>
                 if i = 1 \<and> has_name then
                   do {
                     st1 \<leftarrow> update_last_instance task_name (\<lambda>inst. inst\<lparr>inst_name := Some str\<rparr>) st;
                     Some ((task_name, task), st1)
                   }
                 else Some ((task_name, task), Report (UnexpectedArgument (getStmtClassName arg)) st)
             | None \<Rightarrow> Some ((task_name, task), Report (UnexpectedArgument (getStmtClassName arg)) st))))"

fun process_args ::
  "int \<Rightarrow> bool \<Rightarrow> bool \<Rightarrow> nat \<Rightarrow> nat \<Rightarrow> Expr list \<Rightarrow> LoopVars \<times> State \<Rightarrow> (LoopVars \<times> State) option" where
  "process_args step has_name is_vec i_vec i [] s = Some s"
| "process_args step has_name is_vec i_vec i (arg # rest) s =
     do {
       s1 \<leftarrow> process_arg step has_name is_vec i_vec i arg s;
       process_args step has_name is_vec i_vec (Suc i) rest s1
     }"

text \<open>The loop over the replicas (line 470), given the values of \<open>i_vec\<close> still to run.\<close>

fun process_replicas ::
  "int \<Rightarrow> bool \<Rightarrow> bool \<Rightarrow> Expr list \<Rightarrow> nat list \<Rightarrow> LoopVars \<times> State \<Rightarrow> (LoopVars \<times> State) option" where
  "process_replicas step has_name is_vec args [] s = Some s"
| "process_replicas step has_name is_vec args (i_vec # rest) s =
     do {
       s1 \<leftarrow> process_args step has_name is_vec i_vec 0 args s;
       process_replicas step has_name is_vec args rest s1
     }"

section \<open>One invocation (lines 418--610)\<close>

text \<open>
  The compile-time arguments (lines 419--441): the step is the low 32 bits of the first
  template argument read as an \<^verbatim>\<open>int\<close>; a second integral argument is the vector length;
  an integral last argument means that an instance name is given.
\<close>

fun is_integral :: "TemplateArgument \<Rightarrow> bool" where
  "is_integral (Integral raw) = True"
| "is_integral NonIntegral = False"

fun raw_data :: "TemplateArgument \<Rightarrow> 64 word option" where
  "raw_data (Integral raw) = Some raw"
| "raw_data NonIntegral = None"

definition step_of_raw :: "64 word \<Rightarrow> int" where
  "step_of_raw raw = sint (ucast raw :: 32 word)"

definition parse_invoke :: "CXXMemberCallExpr \<Rightarrow> State \<Rightarrow> ((int \<times> bool \<times> bool \<times> nat) \<times> State) option" where
  "parse_invoke invoke st =
     (case template_args invoke of
        None \<Rightarrow> Some ((- 1, False, False, 1), Report (UnexpectedInvocation ''CXXMemberCallExpr'') st)
      | Some targs \<Rightarrow>
          (case targs of
             [] \<Rightarrow> None
           | t0 # ts \<Rightarrow>
               (case raw_data t0 of
                  None \<Rightarrow> None
                | Some raw0 \<Rightarrow>
                    (let is_vec = (length targs > 1 \<and> is_integral (targs ! 1));
                         vec_length = (if is_vec then (case raw_data (targs ! 1) of Some r \<Rightarrow> unat r | None \<Rightarrow> 1) else 1);
                         has_name = is_integral (last targs)
                     in Some ((step_of_raw raw0, has_name, is_vec, vec_length), st)))))"

definition process_invoke :: "CXXMemberCallExpr \<Rightarrow> State \<Rightarrow> State option" where
  "process_invoke invoke st =
     do {
       ((step, has_name, is_vec, vec_length), st1) \<leftarrow> parse_invoke invoke st;
       (lv, st2) \<leftarrow> process_replicas step has_name is_vec (call_args invoke) [0..<vec_length]
                      (([], None), st1);
       Some st2
     }"

fun process_invokes :: "CXXMemberCallExpr list \<Rightarrow> State \<Rightarrow> State option" where
  "process_invokes [] st = Some st"
| "process_invokes (invoke # rest) st =
     do { st1 \<leftarrow> process_invoke invoke st; process_invokes rest st1 }"

section \<open>Ports (lines 360--387)\<close>

definition add_mmap_meta :: "ParmVarDecl \<Rightarrow> string \<Rightarrow> State \<Rightarrow> State" where
  "add_mmap_meta param nm st =
     st\<lparr>ports := ports st @
          [\<lparr>port_name = nm,
            port_cat = (if IsTapaType (param_type param) [c_async_mmap, c_async_mmaps]
                        then ''async_mmap'' else ''mmap''),
            port_width = elem_width (param_type param),
            port_type = elem_type (param_type param) @ ''*''\<rparr>]\<rparr>"

definition add_port :: "ParmVarDecl \<Rightarrow> State \<Rightarrow> State" where
  "add_port param st =
     (let pn = param_name param; pt = param_type param in
      if IsTapaType pt [c_mmap, c_async_mmap] then add_mmap_meta param pn st
      else if IsTapaType pt [c_mmaps, c_async_mmaps] then
        fold (\<lambda>i. add_mmap_meta param (pn @ ''['' @ to_string_int (int i) @ '']''))
          [0..<nat (array_size pt)] st
      else if IsStreamInterface pt then st
      else st\<lparr>ports := ports st @
                [\<lparr>port_name = pn, port_cat = ''scalar'', port_width = type_width pt,
                  port_type = as_string pt\<rparr>]\<rparr>)"

section \<open>Stream declarations (lines 389--413)\<close>

definition declare_fifo :: "string \<Rightarrow> 64 word \<Rightarrow> State \<Rightarrow> State" where
  "declare_fifo nm fifo_depth st =
     st\<lparr>fifos := AList.update nm ((lookup_fifo st nm)\<lparr>depth := Some fifo_depth\<rparr>) (fifos st)\<rparr>"

text \<open>The state is paired with \<open>fifo_decls\<close>, the map from a channel name to its declaration.\<close>

type_synonym FifoDecls = "(string \<times> VarDecl) list"

text \<open>
  The body of the loop over the children (lines 392--412): only the first declaration of a
  declaration statement is looked at (line 393).
\<close>

fun process_decl :: "Stmt \<Rightarrow> State \<times> FifoDecls \<Rightarrow> State \<times> FifoDecls" where
  "process_decl (DeclStmt (Variable var_decl) others) (st, fifo_decls) =
     (case var_type var_decl of
        StreamType e d \<Rightarrow>
          (declare_fifo (var_name var_decl) d st,
           AList.update (var_name var_decl) var_decl fifo_decls)
      | StreamsType e n d \<Rightarrow>
          fold (\<lambda>i (st', fd).
                  (declare_fifo (ArrayNameAt (var_name var_decl) (int i)) d st',
                   AList.update (ArrayNameAt (var_name var_decl) (int i)) var_decl fd))
            [0..<nat n] (st, fifo_decls)
      | OtherVarType \<Rightarrow> (st, fifo_decls))"
| "process_decl _ s = s"

section \<open>End-of-task validation (lines 612--645)\<close>

text \<open>
  The loop visits the entries of \<^verbatim>\<open>metadata["fifos"]\<close> in key order. Its only change to
  the object is to erase the entry it is at, so the entries to visit are those of the object
  at the start. An entry with no edge whose name is not in \<open>fifo_decls\<close> dereferences the
  end iterator, which has no value.
\<close>

fun validate_loop :: "FifoDecls \<Rightarrow> (string \<times> Fifo) list \<Rightarrow> State \<Rightarrow> State option" where
  "validate_loop fifo_decls [] st = Some st"
| "validate_loop fifo_decls ((fifo_name, fifo) # rest) st =
     (let is_consumed = (consumed_by fifo \<noteq> None);
          is_produced = (produced_by fifo \<noteq> None);
          fifo_decl = map_of fifo_decls fifo_name
      in if \<not> is_consumed \<and> \<not> is_produced then
           (case fifo_decl of
              None \<Rightarrow> None
            | Some d \<Rightarrow>
                validate_loop fifo_decls rest
                  ((Report (UnusedStream fifo_name) st)
                     \<lparr>fifos := AList.delete fifo_name (fifos st)\<rparr>))
         else
           validate_loop fifo_decls rest
             (if fifo_decl \<noteq> None \<and> is_consumed \<noteq> is_produced
              then Report (if is_consumed then ConsumedNotProduced fifo_name
                           else ProducedNotConsumed fifo_name) st
              else st))"

definition validate_fifos :: "FifoDecls \<Rightarrow> State \<Rightarrow> State option" where
  "validate_fifos fifo_decls st = validate_loop fifo_decls (sort_key fst (fifos st)) st"

section \<open>\<^verbatim>\<open>Visitor::ProcessUpperLevelTask\<close> (lines 252--653)\<close>

text \<open>
  \<open>extract_graph\<close> is the function up to line 610: the \<^verbatim>\<open>fifos\<close> object is reset, the
  ports are derived from the parameters, the stream declarations are recorded and the
  invocations are processed. \<open>task\<close> is the list of the invocations of the task
  expression.
\<close>

definition extract_graph ::
  "CXXMemberCallExpr list \<Rightarrow> FunctionDecl \<Rightarrow> State \<Rightarrow> (State \<times> FifoDecls) option" where
  "extract_graph task func st =
     (let st0 = st\<lparr>fifos := []\<rparr>;
          st1 = fold add_port (parameters func) st0;
          (st2, fifo_decls) = fold process_decl (body func) (st1, [])
      in do { st3 \<leftarrow> process_invokes task st2; Some (st3, fifo_decls) })"

definition ProcessUpperLevelTask :: "CXXMemberCallExpr list \<Rightarrow> FunctionDecl \<Rightarrow> State \<Rightarrow> State option" where
  "ProcessUpperLevelTask task func st =
     do {
       (st3, fifo_decls) \<leftarrow> extract_graph task func st;
       validate_fifos fifo_decls st3
     }"

section \<open>\<^verbatim>\<open>Visitor::GetFrtInterface\<close> (lines 683--798)\<close>

definition NL :: string where
  "NL = [CHR 0x0A]"

text \<open>Lines 724--728.\<close>

definition frt_direction :: "bool \<Rightarrow> string" where
  "frt_direction elem_is_const =
     (let write_device = True;
          read_device = (\<not> elem_is_const)
      in if write_device then (if read_device then ''ReadWrite'' else ''WriteOnly'')
         else ''ReadOnly'')"

text \<open>The \<^verbatim>\<open>add_param\<close> lambda (lines 729--747).\<close>

definition add_param :: "string \<Rightarrow> string \<Rightarrow> string \<Rightarrow> string" where
  \<open>add_param direction nm var =
     NL @ ''      } else if (_tapa_arg_info.name == "'' @ nm @ ''") {'' @ NL @
     ''        auto _tapa_arg = fpga::'' @ direction @ ''('' @ var @ ''.get(), '' @ var @
     ''.size());'' @ NL @
     ''        _tapa_instance.AllocBuf(_tapa_arg_index, _tapa_arg);'' @ NL @
     ''        _tapa_instance.SetArg(_tapa_arg_index, _tapa_arg);''\<close>

text \<open>
  The body of the loop over the parameters (lines 720--771): the strings pushed to
  \<open>content\<close>. \<^verbatim>\<open>GetArrayElem\<close> is declared in \<^verbatim>\<open>type.h\<close> and is a parameter here.
\<close>

definition frt_param :: "(string \<Rightarrow> int \<Rightarrow> string) \<Rightarrow> ParmVarDecl \<Rightarrow> string list" where
  \<open>frt_param GetArrayElem param =
     (let nm = param_name param; pt = param_type param in
      if IsTapaType pt [c_mmap, c_async_mmap, c_mmaps, c_async_mmaps] then
        (let direction = frt_direction (elem_const pt) in
         if IsTapaType pt [c_mmaps, c_async_mmaps] then
           map (\<lambda>i. add_param direction (GetArrayElem nm (int i)) (ArrayNameAt nm (int i)))
             [0..<to_uint64 (array_size pt)]
         else [add_param direction nm nm])
      else if IsTapaType pt [c_istream, c_ostream, c_istreams, c_ostreams] then
        [NL @ ''#error stream not supported yet'' @ NL]
      else
        [NL @ ''      } else if (_tapa_arg_info.name == "'' @ nm @ ''") {'' @ NL @
         ''        _tapa_instance.SetArg(_tapa_arg_index, '' @ nm @ '');''])\<close>




section \<open>\<^verbatim>\<open>Visitor::VisitFunctionDecl\<close> (lines 209--235)\<close>



section \<open>Relations between states, for the proofs\<close>

text \<open>A channel entry has an edge when it has a producer or a consumer.\<close>

definition has_edge :: "Fifo \<Rightarrow> bool" where
  "has_edge f \<longleftrightarrow> produced_by f \<noteq> None \<or> consumed_by f \<noteq> None"

text \<open>
  \<open>bind_closed R\<close>: the relation \<open>R\<close> between a state and a later state is reflexive
  and transitive and holds across every primitive that the binding of an argument applies;
  \<open>step_closed R\<close>: it holds across the creation of an instance as well.
\<close>

definition bind_closed :: "(State \<Rightarrow> State \<Rightarrow> bool) \<Rightarrow> bool" where
  "bind_closed R \<longleftrightarrow>
     (\<forall>st. R st st) \<and>
     (\<forall>a b c. R a b \<longrightarrow> R b c \<longrightarrow> R a c) \<and>
     (\<forall>d st. R st (Report d st)) \<and>
     (\<forall>tn upd st st'. update_last_instance tn upd st = Some st' \<longrightarrow> R st st') \<and>
     (\<forall>tn an a st. R st (register_consumer tn an a st)) \<and>
     (\<forall>tn an a st. R st (register_producer tn an a st))"

definition step_closed :: "(State \<Rightarrow> State \<Rightarrow> bool) \<Rightarrow> bool" where
  "step_closed R \<longleftrightarrow> bind_closed R \<and> (\<forall>tn s st. R st (push_instance tn s st))"

text \<open>
  \<open>extends st st'\<close>: the later state has the ports of the earlier one, its diagnostics as
  a prefix, every channel of the earlier one with the same depth and at least the same
  edges, and every new or changed channel entry has an edge.
\<close>

definition extends :: "State \<Rightarrow> State \<Rightarrow> bool" where
  "extends st st' \<longleftrightarrow>
     ports st' = ports st \<and> frt_interface st' = frt_interface st \<and>
     (\<exists>ds. diagnostics st' = diagnostics st @ ds) \<and>
     (distinct (map fst (fifos st)) \<longrightarrow> distinct (map fst (fifos st'))) \<and>
     (\<forall>c f. map_of (fifos st) c = Some f \<longrightarrow>
        (\<exists>f'. map_of (fifos st') c = Some f' \<and> depth f' = depth f \<and>
              (produced_by f \<noteq> None \<longrightarrow> produced_by f' \<noteq> None) \<and>
              (consumed_by f \<noteq> None \<longrightarrow> consumed_by f' \<noteq> None))) \<and>
     (\<forall>c f'. map_of (fifos st') c = Some f' \<longrightarrow> map_of (fifos st) c = Some f' \<or> has_edge f')"

text \<open>
  The diagnostics that the validation loop reports at one entry, and the names of the
  entries it erases; they state the result of the loop in closed form.
\<close>

definition entry_diags :: "FifoDecls \<Rightarrow> string \<times> Fifo \<Rightarrow> Diagnostic list" where
  "entry_diags fifo_decls e =
     (if \<not> has_edge (snd e) then [UnusedStream (fst e)]
      else if map_of fifo_decls (fst e) \<noteq> None \<and> produced_by (snd e) = None
        then [ConsumedNotProduced (fst e)]
      else if map_of fifo_decls (fst e) \<noteq> None \<and> consumed_by (snd e) = None
        then [ProducedNotConsumed (fst e)]
      else [])"

definition unused_names :: "(string \<times> Fifo) list \<Rightarrow> string set" where
  "unused_names es = fst ` {e \<in> set es. \<not> has_edge (snd e)}"

text \<open>The declarations keep the channel entries and \<open>fifo_decls\<close> in step.\<close>

definition decls_inv :: "State \<times> FifoDecls \<Rightarrow> bool" where
  "decls_inv s \<longleftrightarrow>
     distinct (map fst (fifos (fst s))) \<and> fst ` set (fifos (fst s)) = fst ` set (snd s)"







section \<open>Example inputs\<close>

text \<open>
  Example inputs. \<open>ex_type c s\<close> is a 32-bit type with template name \<open>c\<close>, printed as
  \<open>s\<close>, whose element type is \<^verbatim>\<open>int\<close>.
\<close>

definition ex_type :: "TapaClass option \<Rightarrow> string \<Rightarrow> int option \<Rightarrow> QualType" where
  "ex_type c s n =
     \<lparr>tapa_class = c, as_string = s, type_width = 32, elem_type = ''int'', elem_width = 32,
      elem_const = False, template_arg1 = n, array_size = (case n of Some k \<Rightarrow> k | None \<Rightarrow> 0)\<rparr>"

definition ex_state :: State where
  "ex_state = \<lparr>frt_interface = None, ports = [], fifos = [], tasks = [], diagnostics = []\<rparr>"

text \<open>\<^verbatim>\<open>void Producer(tapa::ostream<int>& out)\<close> and \<^verbatim>\<open>void Consumer(tapa::istream<int>& in)\<close>.\<close>

definition ex_Producer :: Expr where
  "ex_Producer = DeclRefExpr ''Producer'' (ex_type None ''void (tapa::ostream<int> &)'' None) None
     (Some [\<lparr>param_name = ''out'', param_type = ex_type (Some c_ostream) ''tapa::ostream<int> &'' None\<rparr>])"

definition ex_Consumer :: Expr where
  "ex_Consumer = DeclRefExpr ''Consumer'' (ex_type None ''void (tapa::istream<int> &)'' None) None
     (Some [\<lparr>param_name = ''in'', param_type = ex_type (Some c_istream) ''tapa::istream<int> &'' None\<rparr>])"

definition ex_stream_ref :: "string \<Rightarrow> Expr" where
  "ex_stream_ref nm = DeclRefExpr nm (ex_type (Some c_stream) ''tapa::stream<int, 2>'' (Some 2)) None None"

text \<open>\<^verbatim>\<open>.invoke<0>(f, x)\<close>.\<close>

definition ex_invoke :: "Expr \<Rightarrow> Expr list \<Rightarrow> CXXMemberCallExpr" where
  "ex_invoke f xs = \<lparr>template_args = Some [Integral 0, NonIntegral, NonIntegral], call_args = f # xs\<rparr>"









text \<open>
  \<^verbatim>\<open>void Top(tapa::mmap<float> a, int n, tapa::ostream<int>& o)
  { tapa::task().invoke<0>(Producer, o); }\<close>
\<close>

definition ex_top_invokes :: "CXXMemberCallExpr list" where
  "ex_top_invokes =
     [ex_invoke ex_Producer [DeclRefExpr ''o'' (ex_type (Some c_ostream) ''tapa::ostream<int>'' None) None None]]"

definition ex_top :: FunctionDecl where
  "ex_top =
     \<lparr>func_name = ''Top'',
      parameters =
        [\<lparr>param_name = ''a'',
          param_type = \<lparr>tapa_class = Some c_mmap, as_string = ''tapa::mmap<float>'', type_width = 64,
                        elem_type = ''float'', elem_width = 32, elem_const = False,
                        template_arg1 = None, array_size = 0\<rparr>\<rparr>,
         \<lparr>param_name = ''n'', param_type = ex_type None ''int'' None\<rparr>,
         \<lparr>param_name = ''o'', param_type = ex_type (Some c_ostream) ''tapa::ostream<int> &'' None\<rparr>],
      body = [ExprWithCleanups ''struct tapa::task'' ex_top_invokes],
      text_before_body = [], text_after_body = []\<rparr>"

text \<open>\<^verbatim>\<open>tapa::mmap<const float> b\<close>.\<close>

definition ex_const_mmap :: ParmVarDecl where
  "ex_const_mmap =
     \<lparr>param_name = ''b'',
      param_type = \<lparr>tapa_class = Some c_mmap, as_string = ''tapa::mmap<const float>'',
                    type_width = 64, elem_type = ''const float'', elem_width = 32,
                    elem_const = True, template_arg1 = None, array_size = 0\<rparr>\<rparr>"

text \<open>
  \<^verbatim>\<open>.invoke<0>(f, x)\<close> of the overload that takes an instance name: the last template
  argument is the length of the name.
\<close>

definition ex_named_invoke :: "Expr \<Rightarrow> Expr list \<Rightarrow> CXXMemberCallExpr" where
  "ex_named_invoke f xs =
     \<lparr>template_args = Some [Integral 0, NonIntegral, NonIntegral, Integral 5], call_args = f # xs\<rparr>"

text \<open>
  \<^verbatim>\<open>tapa::streams<int, 3, 2> ss; tapa::task().invoke<0, 5>(Consumer, ss);\<close>
\<close>

definition ex_streams_type :: QualType where
  "ex_streams_type = ex_type (Some c_streams) ''tapa::streams<int, 3, 2>'' (Some 3)"

definition ex_vector_invokes :: "CXXMemberCallExpr list" where
  "ex_vector_invokes =
     [\<lparr>template_args = Some [Integral 0, Integral 5, NonIntegral, NonIntegral],
       call_args = [ex_Consumer, DeclRefExpr ''ss'' ex_streams_type None None]\<rparr>]"

definition ex_vector :: FunctionDecl where
  "ex_vector =
     \<lparr>func_name = ''Vector'', parameters = [],
      body = [DeclStmt (Variable \<lparr>var_name = ''ss'', var_type = StreamsType ''int'' 3 2\<rparr>) [],
              ExprWithCleanups ''struct tapa::task'' ex_vector_invokes],
      text_before_body = [], text_after_body = []\<rparr>"

text \<open>
  A state in which channel \<open>c\<close> is connected and \<^verbatim>\<open>Producer\<close> and \<^verbatim>\<open>Consumer\<close> have two
  instances each.
\<close>

definition ex_instance :: "(string \<times> string \<times> string) list \<Rightarrow> Instance" where
  "ex_instance bindings = \<lparr>inst_step = 0, inst_name = None, inst_args = bindings\<rparr>"

definition ex_connected_fifo :: Fifo where
  "ex_connected_fifo =
     \<lparr>depth = Some 2, produced_by = Some (''Producer'', 0), consumed_by = Some (''Consumer'', 0)\<rparr>"

definition ex_connected :: State where
  "ex_connected =
     \<lparr>frt_interface = None, ports = [],
      fifos = [(''c'', ex_connected_fifo)],
      tasks = [(''Producer'', [ex_instance [(''out'', ''ostream'', ''c'')], ex_instance []]),
               (''Consumer'', [ex_instance [(''in'', ''istream'', ''c'')], ex_instance []])],
      diagnostics = []\<rparr>"





chapter \<open>Properties\<close>

section \<open>Rounding up\<close>

lemma unat_quot_succ:
  fixes N i :: "64 word"
  assumes "i \<noteq> 0"
  shows "unat ((i - 1) div N + 1) = (unat i - 1) div unat N + 1"
proof -
  have i1: "unat (i - 1) = unat i - 1"
    using assms by (simp add: unat_minus_one)
  have d: "unat ((i - 1) div N) = (unat i - 1) div unat N"
    by (simp add: unat_div i1)
  have "unat i < 2 ^ 64" using unsigned_less [of i] by simp
  then have "(unat i - 1) div unat N + 1 < 2 ^ 64"
    using assms div_le_dividend [of "unat i - 1" "unat N"] unat_gt_0 [of i] by linarith
  then have "unat ((i - 1) div N) + unat (1 :: 64 word) < 2 ^ LENGTH(64)"
    by (simp add: d)
  then have "unat ((i - 1) div N + 1) = unat ((i - 1) div N) + unat (1 :: 64 word)"
    by (rule unat_add_lem [THEN iffD1])
  then show ?thesis by (simp add: d)
qed

lemma ceiling_quot_nat:
  fixes k n :: nat
  assumes "0 < n" "0 < k"
  shows "\<lceil>real k / real n\<rceil> = int ((k - 1) div n + 1)"
proof (rule ceiling_unique)
  have "(k - 1) div n * n \<le> k - 1" by simp
  then have "(k - 1) div n * n < k" using assms by linarith
  then have "real ((k - 1) div n) * real n < real k"
    by (metis of_nat_less_iff of_nat_mult)
  then show "of_int (int ((k - 1) div n + 1)) - 1 < real k / real n"
    using assms by (simp add: pos_less_divide_eq)
  have "k - 1 < ((k - 1) div n + 1) * n"
    using assms(1) by (metis Suc_eq_plus1 dividend_less_div_times mult.commute mult_Suc)
  then have "k \<le> ((k - 1) div n + 1) * n" by linarith
  then have "real k \<le> real ((k - 1) div n + 1) * real n"
    by (metis of_nat_le_iff of_nat_mult)
  then show "real k / real n \<le> of_int (int ((k - 1) div n + 1))"
    using assms by (simp add: pos_divide_le_eq)
qed

lemma quot_succ_ge:
  fixes k n :: nat
  assumes "0 < n"
  shows "k \<le> ((k - 1) div n + 1) * n"
proof -
  have "k - 1 < ((k - 1) div n + 1) * n"
    using assms by (metis Suc_eq_plus1 dividend_less_div_times mult.commute mult_Suc)
  then show ?thesis by linarith
qed

lemma least_multiple:
  fixes k n m :: nat
  assumes "0 < n" "0 < k" "n dvd m" "k \<le> m"
  shows "((k - 1) div n + 1) * n \<le> m"
proof -
  obtain c where c: "m = c * n" using assms(3) by (auto simp: dvd_def mult.commute)
  have "k - 1 < c * n" using assms c by linarith
  then have "(k - 1) div n < c" using assms(1) by (simp add: less_mult_imp_div_less)
  then have "(k - 1) div n + 1 \<le> c" by simp
  then show ?thesis unfolding c by (rule mult_le_mono1)
qed

lemma round_up_div_ceiling:
  fixes N i :: "64 word"
  assumes "N \<noteq> 0" "i \<noteq> 0"
  shows "\<exists>q. round_up_div N i = Some q \<and> int (unat q) = \<lceil>real (unat i) / real (unat N)\<rceil>"
proof -
  have n: "0 < unat N" and k: "0 < unat i"
    using assms by (simp_all add: unat_gt_0)
  have "round_up_div N i = Some ((i - 1) div N + 1)"
    using assms(1) by (simp add: round_up_div_def)
  moreover have "int (unat ((i - 1) div N + 1)) = \<lceil>real (unat i) / real (unat N)\<rceil>"
    by (simp only: unat_quot_succ [OF assms(2)] ceiling_quot_nat [OF n k])
  ultimately show ?thesis by blast
qed

lemma round_up_least_multiple:
  fixes N i :: "64 word"
  assumes "N \<noteq> 0" "i \<noteq> 0" "unat N dvd m" "unat i \<le> m" "m < 2 ^ 64"
  shows "\<exists>r. round_up N i = Some r \<and> unat N dvd unat r \<and> unat i \<le> unat r \<and>
             (\<forall>m'. unat N dvd m' \<and> unat i \<le> m' \<longrightarrow> unat r \<le> m')"
proof -
  let ?q = "(unat i - 1) div unat N + 1"
  have n: "0 < unat N" and k: "0 < unat i"
    using assms by (simp_all add: unat_gt_0)
  have le: "?q * unat N \<le> m"
    by (rule least_multiple [OF n k assms(3) assms(4)])
  then have "unat ((i - 1) div N + 1) * unat N < 2 ^ LENGTH(64)"
    using assms(5) by (simp add: unat_quot_succ [OF assms(2)])
  then have "unat (((i - 1) div N + 1) * N) = unat ((i - 1) div N + 1) * unat N"
    by (rule unat_mult_lem [THEN iffD1])
  then have r: "unat (((i - 1) div N + 1) * N) = ?q * unat N"
    by (simp add: unat_quot_succ [OF assms(2)])
  have "round_up N i = Some (((i - 1) div N + 1) * N)"
    using assms(1) by (simp add: round_up_def)
  moreover have "unat N dvd ?q * unat N" by simp
  moreover have "unat i \<le> ?q * unat N" by (rule quot_succ_ge [OF n])
  moreover have "\<forall>m'. unat N dvd m' \<and> unat i \<le> m' \<longrightarrow> ?q * unat N \<le> m'"
    using least_multiple [OF n k] by blast
  ultimately show ?thesis by (simp add: r)
qed

lemma round_up_div_at_zero:
  fixes N :: "64 word"
  assumes "1 < N"
  shows "\<exists>q. round_up_div N 0 = Some q \<and> q \<noteq> 0"
proof -
  have n: "2 \<le> unat N"
    using assms by (simp add: word_less_nat_alt)
  have N0: "N \<noteq> 0" using assms by auto
  have m1: "unat (- 1 :: 64 word) = 2 ^ 64 - 1"
    by (simp add: unsigned_minus_1_eq_mask mask_eq_exp_minus_1)
  have d: "unat ((- 1) div N) = (2 ^ 64 - 1) div unat N"
    by (simp only: unat_div m1)
  have "(2 ^ 64 - 1 :: nat) div unat N \<le> (2 ^ 64 - 1) div 2"
    using n by (intro div_le_mono2) simp_all
  then have "(2 ^ 64 - 1 :: nat) div unat N + unat (1 :: 64 word) < 2 ^ LENGTH(64)"
    by simp
  then have "unat ((- 1) div N) + unat (1 :: 64 word) < 2 ^ LENGTH(64)"
    by (simp only: d)
  then have "unat ((- 1) div N + 1) = unat ((- 1) div N) + unat (1 :: 64 word)"
    by (rule unat_add_lem [THEN iffD1])
  then have "unat ((- 1) div N + 1) \<noteq> 0" by simp
  then have "(- 1) div N + 1 \<noteq> 0" by (metis unat_0)
  then show ?thesis using N0 by (simp add: round_up_div_def)
qed

text \<open>
  C10. For \<open>N \<ge> 1\<close> and \<open>i \<ge> 1\<close>, \<open>round_up_div<N>(i)\<close> is the ceiling of \<open>i / N\<close>, and,
  when some multiple of \<open>N\<close> that is at least \<open>i\<close> fits in 64 bits, \<open>round_up<N>(i)\<close> is
  the least multiple of \<open>N\<close> that is at least \<open>i\<close>. The condition \<open>i \<ge> 1\<close> is needed: at
  \<open>i = 0\<close> the subtraction wraps around, and for every \<open>N \<ge> 2\<close> the result of
  \<open>round_up_div\<close> is not the ceiling of \<open>0 / N\<close>, which is 0.
\<close>

theorem round_up_div_round_up_correct:
  fixes N i :: "64 word"
  assumes "N \<noteq> 0" and "i \<noteq> 0"
  shows "(\<exists>q. round_up_div N i = Some q \<and> int (unat q) = \<lceil>real (unat i) / real (unat N)\<rceil>) \<and>
         ((\<exists>m < 2 ^ 64. unat N dvd m \<and> unat i \<le> m) \<longrightarrow>
            (\<exists>r. round_up N i = Some r \<and> unat N dvd unat r \<and> unat i \<le> unat r \<and>
                 (\<forall>m'. unat N dvd m' \<and> unat i \<le> m' \<longrightarrow> unat r \<le> m'))) \<and>
         (1 < N \<longrightarrow>
            (\<exists>q0. round_up_div N 0 = Some q0 \<and>
                  int (unat q0) \<noteq> \<lceil>real (unat (0 :: 64 word)) / real (unat N)\<rceil>))"
proof (intro conjI impI)
  show "\<exists>q. round_up_div N i = Some q \<and> int (unat q) = \<lceil>real (unat i) / real (unat N)\<rceil>"
    by (rule round_up_div_ceiling [OF assms])
next
  assume "\<exists>m < 2 ^ 64. unat N dvd m \<and> unat i \<le> m"
  then obtain m where "m < 2 ^ 64" "unat N dvd m" "unat i \<le> m" by blast
  then show "\<exists>r. round_up N i = Some r \<and> unat N dvd unat r \<and> unat i \<le> unat r \<and>
                 (\<forall>m'. unat N dvd m' \<and> unat i \<le> m' \<longrightarrow> unat r \<le> m')"
    using round_up_least_multiple [OF assms] by blast
next
  assume "1 < N"
  then obtain q where "round_up_div N 0 = Some q" "q \<noteq> 0"
    using round_up_div_at_zero by blast
  then show "\<exists>q0. round_up_div N 0 = Some q0 \<and>
                  int (unat q0) \<noteq> \<lceil>real (unat (0 :: 64 word)) / real (unat N)\<rceil>"
    by (simp add: uint_0_iff)
qed

theorem round_up_div_round_up_correct_witness:
  "(4 :: 64 word) \<noteq> 0 \<and> (10 :: 64 word) \<noteq> 0 \<and> (1 :: 64 word) < 4 \<and>
   (12 :: nat) < 2 ^ 64 \<and> unat (4 :: 64 word) dvd 12 \<and> unat (10 :: 64 word) \<le> 12 \<and>
   round_up_div 4 10 = Some 3 \<and> round_up 4 10 = Some 12 \<and>
   round_up_div 4 0 = Some 4611686018427387904"
  using round_up_div_round_up_correct [of 4 10]
  by (simp add: round_up_div_def round_up_def)

section \<open>Relations preserved by the processing of invocations\<close>

lemma bind_closed_refl: "bind_closed R \<Longrightarrow> R st st"
  by (simp add: bind_closed_def)

lemma bind_closed_trans: "bind_closed R \<Longrightarrow> R a b \<Longrightarrow> R b c \<Longrightarrow> R a c"
  unfolding bind_closed_def by blast

lemma bind_closed_Report: "bind_closed R \<Longrightarrow> R st (Report d st)"
  by (simp add: bind_closed_def)

lemma bind_closed_update:
  "bind_closed R \<Longrightarrow> update_last_instance tn upd st = Some st' \<Longrightarrow> R st st'"
  unfolding bind_closed_def by blast

lemma bind_closed_consumer: "bind_closed R \<Longrightarrow> R st (register_consumer tn an a st)"
  by (simp add: bind_closed_def)

lemma bind_closed_producer: "bind_closed R \<Longrightarrow> R st (register_producer tn an a st)"
  by (simp add: bind_closed_def)

lemma EvalAsInt_closed:
  assumes "bind_closed R" "EvalAsInt e st = (v, st')"
  shows "R st st'"
  using assms
  by (auto simp: EvalAsInt_def bind_closed_refl bind_closed_Report split: option.splits)

lemma register_arg_closed:
  assumes "bind_closed R" "register_arg tn an pn cat a p st = Some st'"
  shows "R st st'"
  using assms by (auto simp: register_arg_def Let_def intro: bind_closed_update)

lemma get_name_closed:
  assumes R: "bind_closed R" and g: "get_name is_vec nm i dr st = Some (a, st')"
  shows "R st st'"
proof (cases "is_vec \<and> (\<exists>dn ty f. dr = Some (dn, ty, f) \<and> IsTapaType ty [c_async_mmaps, c_streams])")
  case False
  then have "st' = st"
    using g by (auto simp: get_name_def split: if_splits option.splits)
  then show ?thesis using R by (simp add: bind_closed_refl)
next
  case True
  then obtain dn ty f where dr: "dr = Some (dn, ty, f)"
    and ty: "IsTapaType ty [c_async_mmaps, c_streams]" and v: is_vec by blast
  obtain len st1 where e: "EvalAsInt (template_arg1 ty) st = (len, st1)"
    by (cases "EvalAsInt (template_arg1 ty) st")
  have 1: "R st st1" by (rule EvalAsInt_closed [OF R e])
  have "get_name is_vec nm i dr st =
          (if to_uint64 len = 0 then None
           else Some (ArrayNameAt nm (int (i mod to_uint64 len)),
                      if i \<ge> to_uint64 len
                      then Report (VectorIndexWraparound (to_string i) dn
                                     (to_string (i mod to_uint64 len)) (as_string ty)) st1
                      else st1))"
    using dr ty v by (simp add: get_name_def e Let_def)
  with g have "st' = st1 \<or> (\<exists>d. st' = Report d st1)"
    by (auto split: if_splits)
  then have "R st1 st'"
    using bind_closed_refl [OF R] bind_closed_Report [OF R] by auto
  with 1 show ?thesis by (rule bind_closed_trans [OF R])
qed

lemma resolve_arg_name_closed:
  assumes R: "bind_closed R" and g: "resolve_arg_name dr oc ai st = Some (a, st')"
  shows "R st st'"
proof (cases oc)
  case None
  then have "st' = st" using g by (auto simp: resolve_arg_name_def split: option.splits)
  then show ?thesis using R by (simp add: bind_closed_refl)
next
  case (Some es)
  then obtain idx where "EvalAsInt (EvaluateAsInt (es ! 1)) st = (idx, st')"
    using g
    by (auto simp: resolve_arg_name_def Let_def split: option.splits if_splits prod.splits)
  then show ?thesis by (rule EvalAsInt_closed [OF R])
qed

lemma bind_slots_closed:
  assumes R: "bind_closed R"
    and reg: "\<And>a s. R s (reg a s)"
  shows "bind_slots reg tn an pn cat js st = Some st' \<Longrightarrow> R st st'"
proof (induction js arbitrary: st)
  case Nil
  then show ?case using R by (simp add: bind_closed_refl)
next
  case (Cons j js)
  from Cons.prems obtain st1 where
    1: "register_arg tn an pn cat (ArrayNameAt an (int j)) (ArrayNameAt pn (int j))
          (reg (ArrayNameAt an (int j)) st) = Some st1"
    and 2: "bind_slots reg tn an pn cat js st1 = Some st'"
    by (auto simp: Let_def split: bind_splits)
  have a: "R st (reg (ArrayNameAt an (int j)) st)" by (rule reg)
  have b: "R (reg (ArrayNameAt an (int j)) st) st1" by (rule register_arg_closed [OF R 1])
  have c: "R st1 st'" by (rule Cons.IH [OF 2])
  show ?case by (rule bind_closed_trans [OF R a bind_closed_trans [OF R b c]])
qed

lemma bind_arg_closed:
  assumes R: "bind_closed R" and b: "bind_arg is_vec i_vec an dr is_seq tn p st = Some st'"
  shows "R st st'"
proof -
  let ?pt = "param_type p"
  consider (single) "IsTapaType ?pt [c_mmap] \<or> IsTapaType ?pt [c_async_mmap]"
    | (istream) "\<not> IsTapaType ?pt [c_mmap]" "\<not> IsTapaType ?pt [c_async_mmap]" "IsTapaType ?pt [c_istream]"
    | (ostream) "\<not> IsTapaType ?pt [c_mmap]" "\<not> IsTapaType ?pt [c_async_mmap]" "\<not> IsTapaType ?pt [c_istream]"
        "IsTapaType ?pt [c_ostream]"
    | (istreams) "\<not> IsTapaType ?pt [c_mmap]" "\<not> IsTapaType ?pt [c_async_mmap]" "\<not> IsTapaType ?pt [c_istream]"
        "\<not> IsTapaType ?pt [c_ostream]" "IsTapaType ?pt [c_istreams]"
    | (ostreams) "\<not> IsTapaType ?pt [c_mmap]" "\<not> IsTapaType ?pt [c_async_mmap]" "\<not> IsTapaType ?pt [c_istream]"
        "\<not> IsTapaType ?pt [c_ostream]" "\<not> IsTapaType ?pt [c_istreams]" "IsTapaType ?pt [c_ostreams]"
    | (scalar) "\<not> IsTapaType ?pt [c_mmap]" "\<not> IsTapaType ?pt [c_async_mmap]" "\<not> IsTapaType ?pt [c_istream]"
        "\<not> IsTapaType ?pt [c_ostream]" "\<not> IsTapaType ?pt [c_istreams]" "\<not> IsTapaType ?pt [c_ostreams]"
    by blast
  then show ?thesis
  proof cases
    case single
    then obtain a st1 cat where g: "get_name is_vec an i_vec dr st = Some (a, st1)"
      and r: "register_arg tn an (param_name p) cat a [] st1 = Some st'"
      using b by (auto simp: bind_arg_def Let_def split: bind_splits if_splits)
    show ?thesis
      by (rule bind_closed_trans [OF R get_name_closed [OF R g] register_arg_closed [OF R r]])
  next
    case istream
    then obtain a st1 where g: "get_name is_vec an i_vec dr st = Some (a, st1)"
      and r: "register_arg tn an (param_name p) ''istream'' a [] (register_consumer tn an a st1) = Some st'"
      using b by (auto simp: bind_arg_def Let_def split: bind_splits)
    show ?thesis
      by (rule bind_closed_trans [OF R get_name_closed [OF R g]
            bind_closed_trans [OF R bind_closed_consumer [OF R] register_arg_closed [OF R r]]])
  next
    case ostream
    then obtain a st1 where g: "get_name is_vec an i_vec dr st = Some (a, st1)"
      and r: "register_arg tn an (param_name p) ''ostream'' a [] (register_producer tn an a st1) = Some st'"
      using b by (auto simp: bind_arg_def Let_def split: bind_splits)
    show ?thesis
      by (rule bind_closed_trans [OF R get_name_closed [OF R g]
            bind_closed_trans [OF R bind_closed_producer [OF R] register_arg_closed [OF R r]]])
  next
    case istreams
    then have "bind_slots (register_consumer tn an) tn an (param_name p) ''istream''
                 [0..<nat (array_size ?pt)] st = Some st'"
      using b by (simp add: bind_arg_def Let_def)
    then show ?thesis
      by (rule bind_slots_closed [OF R bind_closed_consumer [OF R]])
  next
    case ostreams
    then have "bind_slots (register_producer tn an) tn an (param_name p) ''ostream''
                 [0..<nat (array_size ?pt)] st = Some st'"
      using b by (simp add: bind_arg_def Let_def)
    then show ?thesis
      by (rule bind_slots_closed [OF R bind_closed_producer [OF R]])
  next
    case scalar
    then obtain a where "register_arg tn an (param_name p) ''scalar'' a [] st = Some st'"
      using b by (auto simp: bind_arg_def Let_def split: if_splits)
    then show ?thesis by (rule register_arg_closed [OF R])
  qed
qed

lemma step_closed_bind: "step_closed R \<Longrightarrow> bind_closed R"
  by (simp add: step_closed_def)

lemma step_closed_push: "step_closed R \<Longrightarrow> R st (push_instance tn s st)"
  by (simp add: step_closed_def)

lemma process_arg_cases:
  assumes "process_arg step has_name is_vec i_vec i arg ((tn, task), st) = Some ((tn', task'), st')"
  obtains
    (callee) an st1 dn ty f where "i = 0" "resolve_arg_name (as_decl_ref arg) (as_op_call arg) (EvaluateAsInt arg) st = Some (an, st1)"
      "as_decl_ref arg = Some (dn, ty, f)" "tn' = an" "task' = f" "st' = push_instance an step st1"
  | (bind) an st1 params param where "i \<noteq> 0" "resolve_arg_name (as_decl_ref arg) (as_op_call arg) (EvaluateAsInt arg) st = Some (an, st1)"
      "task = Some params" "getParamDecl params has_name i = Some param"
      "bind_arg is_vec i_vec an (as_decl_ref arg) (arg_is_seq arg) tn param st1 = Some st'"
      "tn' = tn" "task' = task"
  | (name) str where "i = 1" "has_name" "arg = StringLiteral str"
      "update_last_instance tn (\<lambda>inst. inst\<lparr>inst_name := Some str\<rparr>) st = Some st'"
      "tn' = tn" "task' = task"
  | (unexpected) "as_decl_ref arg = None" "as_op_call arg = None" "EvaluateAsInt arg = None" "\<not> arg_is_seq arg"
      "\<not> (i = 1 \<and> has_name \<and> as_string_literal arg \<noteq> None)"
      "st' = Report (UnexpectedArgument (getStmtClassName arg)) st" "tn' = tn" "task' = task"
proof (cases "as_decl_ref arg \<noteq> None \<or> as_op_call arg \<noteq> None \<or> EvaluateAsInt arg \<noteq> None \<or> arg_is_seq arg")
  case True
  then obtain an st1 where r: "resolve_arg_name (as_decl_ref arg) (as_op_call arg) (EvaluateAsInt arg) st = Some (an, st1)"
    and rest: "(if i = 0 then
                (case as_decl_ref arg of
                   None \<Rightarrow> None
                 | Some (dn, ty, f) \<Rightarrow> Some ((an, f), push_instance an step st1))
              else
                (case task of
                   None \<Rightarrow> None
                 | Some params \<Rightarrow>
                     do {
                       param \<leftarrow> getParamDecl params has_name i;
                       st2 \<leftarrow> bind_arg is_vec i_vec an (as_decl_ref arg) (arg_is_seq arg) tn param st1;
                       Some ((tn, task), st2)
                     })) = Some ((tn', task'), st')"
    using assms by (auto simp: process_arg_def Let_def split: bind_splits)
  show ?thesis
  proof (cases "i = 0")
    case True
    with rest r show ?thesis
      by (auto split: option.splits intro: callee)
  next
    case False
    with rest r show ?thesis
      by (auto split: option.splits bind_splits intro: bind)
  qed
next
  case False
  then have none: "as_decl_ref arg = None" "as_op_call arg = None" "EvaluateAsInt arg = None" "\<not> arg_is_seq arg"
    by blast+
  show ?thesis
  proof (cases "i = 1 \<and> has_name \<and> as_string_literal arg \<noteq> None")
    case True
    then obtain str where "arg = StringLiteral str"
      by (cases arg) auto
    with True assms none show ?thesis
      by (auto simp: process_arg_def Let_def split: bind_splits intro: name)
  next
    case False
    with assms none have "st' = Report (UnexpectedArgument (getStmtClassName arg)) st \<and> tn' = tn \<and> task' = task"
      by (auto simp: process_arg_def Let_def split: option.splits if_splits)
    with False none show ?thesis by (auto intro: unexpected)
  qed
qed

lemma process_arg_closed:
  assumes R: "step_closed R"
    and p: "process_arg step has_name is_vec i_vec i arg (lv, st) = Some (lv', st')"
  shows "R st st'"
proof -
  note B = step_closed_bind [OF R]
  obtain tn task tn' task' where lv: "lv = (tn, task)" "lv' = (tn', task')"
    by (cases lv, cases lv') auto
  from p [unfolded lv] show ?thesis
  proof (cases rule: process_arg_cases)
    case (callee an st1 dn ty f)
    have "R st st1" by (rule resolve_arg_name_closed [OF B callee(2)])
    moreover have "R st1 st'" unfolding callee(6) by (rule step_closed_push [OF R])
    ultimately show ?thesis by (rule bind_closed_trans [OF B])
  next
    case (bind an st1 params param)
    have "R st st1" by (rule resolve_arg_name_closed [OF B bind(2)])
    moreover have "R st1 st'" by (rule bind_arg_closed [OF B bind(5)])
    ultimately show ?thesis by (rule bind_closed_trans [OF B])
  next
    case (name str)
    then show ?thesis using bind_closed_update [OF B] by blast
  next
    case unexpected
    then show ?thesis using bind_closed_Report [OF B] by simp
  qed
qed


lemma process_args_closed:
  assumes R: "step_closed R"
  shows "process_args step has_name is_vec i_vec i args (lv, st) = Some (lv', st') \<Longrightarrow> R st st'"
proof (induction args arbitrary: i lv st)
  case Nil
  then show ?case using bind_closed_refl [OF step_closed_bind [OF R]] by simp
next
  case (Cons a args)
  from Cons.prems obtain lv1 st1 where
    1: "process_arg step has_name is_vec i_vec i a (lv, st) = Some (lv1, st1)"
    and 2: "process_args step has_name is_vec i_vec (Suc i) args (lv1, st1) = Some (lv', st')"
    by (auto split: bind_splits)
  show ?case
    by (rule bind_closed_trans [OF step_closed_bind [OF R] process_arg_closed [OF R 1] Cons.IH [OF 2]])
qed


lemma process_replicas_closed:
  assumes R: "step_closed R"
  shows "process_replicas step has_name is_vec args ks (lv, st) = Some (lv', st') \<Longrightarrow> R st st'"
proof (induction ks arbitrary: lv st)
  case Nil
  then show ?case using bind_closed_refl [OF step_closed_bind [OF R]] by simp
next
  case (Cons k ks)
  from Cons.prems obtain lv1 st1 where
    1: "process_args step has_name is_vec k 0 args (lv, st) = Some (lv1, st1)"
    and 2: "process_replicas step has_name is_vec args ks (lv1, st1) = Some (lv', st')"
    by (auto split: bind_splits)
  show ?case
    by (rule bind_closed_trans [OF step_closed_bind [OF R] process_args_closed [OF R 1] Cons.IH [OF 2]])
qed

lemma parse_invoke_closed:
  assumes R: "step_closed R" and p: "parse_invoke invoke st = Some (iv, st1)"
  shows "R st st1"
proof -
  have "st1 = st \<or> (\<exists>d. st1 = Report d st)"
    using p by (auto simp: parse_invoke_def Let_def split: option.splits list.splits)
  then show ?thesis
    using bind_closed_refl [OF step_closed_bind [OF R]] bind_closed_Report [OF step_closed_bind [OF R]]
    by auto
qed

lemma process_invoke_closed:
  assumes R: "step_closed R" and p: "process_invoke invoke st = Some st'"
  shows "R st st'"
proof -
  from p obtain step has_name is_vec n st1 lv where
    1: "parse_invoke invoke st = Some ((step, has_name, is_vec, n), st1)"
    and 2: "process_replicas step has_name is_vec (call_args invoke) [0..<n] (([], None), st1) = Some (lv, st')"
    by (auto simp: process_invoke_def split: bind_splits)
  show ?thesis
    by (rule bind_closed_trans [OF step_closed_bind [OF R] parse_invoke_closed [OF R 1]
          process_replicas_closed [OF R 2]])
qed

lemma process_invokes_closed:
  assumes R: "step_closed R"
  shows "process_invokes invokes st = Some st' \<Longrightarrow> R st st'"
proof (induction invokes arbitrary: st)
  case Nil
  then show ?case using bind_closed_refl [OF step_closed_bind [OF R]] by simp
next
  case (Cons invoke invokes)
  from Cons.prems obtain st1 where
    1: "process_invoke invoke st = Some st1" and 2: "process_invokes invokes st1 = Some st'"
    by (auto split: bind_splits)
  show ?case
    by (rule bind_closed_trans [OF step_closed_bind [OF R] process_invoke_closed [OF R 1] Cons.IH [OF 2]])
qed

section \<open>The relation \<open>extends\<close> holds across every step\<close>

lemma extends_refl: "extends st st"
  by (simp add: extends_def)

lemma extends_trans:
  assumes "extends a b" "extends b c"
  shows "extends a c"
  unfolding extends_def
proof (intro conjI allI impI)
  show "ports c = ports a" "frt_interface c = frt_interface a"
    using assms by (simp_all add: extends_def)
  show "\<exists>ds. diagnostics c = diagnostics a @ ds"
    using assms by (auto simp: extends_def)
  show "distinct (map fst (fifos c))" if "distinct (map fst (fifos a))"
    using that assms by (simp add: extends_def)
  show "\<exists>f'. map_of (fifos c) k = Some f' \<and> depth f' = depth f \<and>
              (produced_by f \<noteq> None \<longrightarrow> produced_by f' \<noteq> None) \<and>
              (consumed_by f \<noteq> None \<longrightarrow> consumed_by f' \<noteq> None)"
    if "map_of (fifos a) k = Some f" for k f
  proof -
    from that assms(1) obtain f1 where 1: "map_of (fifos b) k = Some f1" "depth f1 = depth f"
      "produced_by f \<noteq> None \<longrightarrow> produced_by f1 \<noteq> None"
      "consumed_by f \<noteq> None \<longrightarrow> consumed_by f1 \<noteq> None"
      unfolding extends_def by blast
    from 1(1) assms(2) obtain f2 where 2: "map_of (fifos c) k = Some f2" "depth f2 = depth f1"
      "produced_by f1 \<noteq> None \<longrightarrow> produced_by f2 \<noteq> None"
      "consumed_by f1 \<noteq> None \<longrightarrow> consumed_by f2 \<noteq> None"
      unfolding extends_def by blast
    from 1 2 show ?thesis by simp
  qed
  show "map_of (fifos a) k = Some f' \<or> has_edge f'" if "map_of (fifos c) k = Some f'" for k f'
  proof -
    from that assms(2) have "map_of (fifos b) k = Some f' \<or> has_edge f'"
      unfolding extends_def by blast
    then show ?thesis using assms(1) unfolding extends_def by blast
  qed
qed

lemma extends_Report: "extends st (Report d st)"
  by (simp add: extends_def Report_def)

lemma extends_update_last_instance:
  "update_last_instance tn upd st = Some st' \<Longrightarrow> extends st st'"
  by (auto simp: extends_def update_last_instance_def split: option.splits if_splits)

lemma extends_push_instance: "extends st (push_instance tn s st)"
  by (simp add: extends_def push_instance_def)

lemma extends_fifo_update:
  assumes "fifos st' = AList.update a f' (fifos st)"
    and "has_edge f'" and "depth f' = depth (lookup_fifo st a)"
    and "produced_by (lookup_fifo st a) \<noteq> None \<longrightarrow> produced_by f' \<noteq> None"
    and "consumed_by (lookup_fifo st a) \<noteq> None \<longrightarrow> consumed_by f' \<noteq> None"
    and "ports st' = ports st" "frt_interface st' = frt_interface st"
    and "\<exists>ds. diagnostics st' = diagnostics st @ ds"
  shows "extends st st'"
  unfolding extends_def
proof (intro conjI allI impI)
  show "ports st' = ports st" "frt_interface st' = frt_interface st"
    "\<exists>ds. diagnostics st' = diagnostics st @ ds"
    using assms by simp_all
  show "distinct (map fst (fifos st'))" if "distinct (map fst (fifos st))"
    using that assms(1) by (simp add: distinct_update)
  show "\<exists>g. map_of (fifos st') k = Some g \<and> depth g = depth f \<and>
              (produced_by f \<noteq> None \<longrightarrow> produced_by g \<noteq> None) \<and>
              (consumed_by f \<noteq> None \<longrightarrow> consumed_by g \<noteq> None)"
    if "map_of (fifos st) k = Some f" for k f
  proof (cases "k = a")
    case True
    then have "lookup_fifo st a = f" using that by (simp add: lookup_fifo_def)
    then show ?thesis using assms True by (simp add: update_conv)
  next
    case False
    then show ?thesis using that assms(1) by (simp add: update_conv)
  qed
  show "map_of (fifos st) k = Some g \<or> has_edge g" if "map_of (fifos st') k = Some g" for k g
    using that assms(1,2) by (cases "k = a") (simp_all add: update_conv)
qed

lemma tasks_size_touch_task [simp]: "tasks_size (touch_task tn st) tn' = tasks_size st tn'"
  by (simp add: tasks_size_def touch_task_def update_conv split: option.splits)

lemma tasks_size_Report [simp]: "tasks_size (Report d st) tn = tasks_size st tn"
  by (simp add: tasks_size_def Report_def)

lemma register_consumer_fifos:
  "fifos (register_consumer tn an a st) =
     AList.update (if a = [] then an else a)
       ((lookup_fifo st (if a = [] then an else a))
          \<lparr>consumed_by := Some (tn, size_minus_one (tasks_size st tn))\<rparr>)
       (fifos st)"
  by (simp add: register_consumer_def Let_def touch_task_def Report_def tasks_size_def update_conv
        split: option.splits)

lemma register_consumer_diagnostics:
  "diagnostics (register_consumer tn an a st) =
     diagnostics st @
       (if consumed_by (lookup_fifo st (if a = [] then an else a)) \<noteq> None
        then [ChannelConsumedTwice (if a = [] then an else a)] else [])"
  by (simp add: register_consumer_def Let_def touch_task_def Report_def)

lemma register_consumer_frame:
  "ports (register_consumer tn an a st) = ports st"
  "frt_interface (register_consumer tn an a st) = frt_interface st"
  by (simp_all add: register_consumer_def Let_def touch_task_def Report_def)

lemma register_producer_fifos:
  "fifos (register_producer tn an a st) =
     AList.update (if a = [] then an else a)
       ((lookup_fifo st (if a = [] then an else a))
          \<lparr>produced_by := Some (tn, size_minus_one (tasks_size st tn))\<rparr>)
       (fifos st)"
  by (simp add: register_producer_def Let_def touch_task_def Report_def tasks_size_def update_conv
        split: option.splits)

lemma register_producer_diagnostics:
  "diagnostics (register_producer tn an a st) =
     diagnostics st @
       (if produced_by (lookup_fifo st (if a = [] then an else a)) \<noteq> None
        then [ChannelProducedTwice (if a = [] then an else a)] else [])"
  by (simp add: register_producer_def Let_def touch_task_def Report_def)

lemma register_producer_frame:
  "ports (register_producer tn an a st) = ports st"
  "frt_interface (register_producer tn an a st) = frt_interface st"
  by (simp_all add: register_producer_def Let_def touch_task_def Report_def)

lemma extends_register_consumer: "extends st (register_consumer tn an a st)"
  by (rule extends_fifo_update [OF register_consumer_fifos])
     (simp_all add: has_edge_def register_consumer_frame register_consumer_diagnostics)

lemma extends_register_producer: "extends st (register_producer tn an a st)"
  by (rule extends_fifo_update [OF register_producer_fifos])
     (simp_all add: has_edge_def register_producer_frame register_producer_diagnostics)

lemma step_closed_extends: "step_closed extends"
  unfolding step_closed_def bind_closed_def
  by (intro conjI allI impI extends_refl extends_Report extends_push_instance
        extends_register_consumer extends_register_producer)
     (erule (1) extends_trans, erule extends_update_last_instance)

section \<open>The validation loop in closed form\<close>

lemma validate_loop_closed_form:
  assumes "\<forall>e \<in> set es. has_edge (snd e) \<or> map_of fifo_decls (fst e) \<noteq> None"
  shows "validate_loop fifo_decls es st =
           Some (st\<lparr>fifos := filter (\<lambda>e. fst e \<notin> unused_names es) (fifos st),
                    diagnostics := diagnostics st @ concat (map (entry_diags fifo_decls) es)\<rparr>)"
  using assms
proof (induction es arbitrary: st)
  case Nil
  then show ?case by (simp add: unused_names_def)
next
  case (Cons e es)
  obtain c f where e: "e = (c, f)" by (cases e)
  have ok: "\<forall>e \<in> set es. has_edge (snd e) \<or> map_of fifo_decls (fst e) \<noteq> None"
    using Cons.prems by simp
  note IH = Cons.IH [OF ok]
  show ?case
  proof (cases "has_edge f")
    case True
    then have u: "unused_names ((c, f) # es) = unused_names es"
      by (auto simp: unused_names_def)
    define bad where "bad \<longleftrightarrow>
      map_of fifo_decls c \<noteq> None \<and> (consumed_by f \<noteq> None) \<noteq> (produced_by f \<noteq> None)"
    define dg where "dg = (if consumed_by f \<noteq> None then ConsumedNotProduced c else ProducedNotConsumed c)"
    have step: "validate_loop fifo_decls ((c, f) # es) st =
                  validate_loop fifo_decls es (if bad then Report dg st else st)"
      using True unfolding bad_def dg_def
      by (cases "consumed_by f"; cases "produced_by f"; cases "map_of fifo_decls c")
         (simp_all add: has_edge_def)
    have d: "entry_diags fifo_decls (c, f) = (if bad then [dg] else [])"
      using True unfolding bad_def dg_def
      by (cases "consumed_by f"; cases "produced_by f"; cases "map_of fifo_decls c")
         (simp_all add: has_edge_def entry_diags_def)
    show ?thesis
    proof (cases bad)
      case True
      then have "validate_loop fifo_decls ((c, f) # es) st = validate_loop fifo_decls es (Report dg st)"
        using step by simp
      also have "\<dots> = Some ((Report dg st)\<lparr>fifos := filter (\<lambda>e. fst e \<notin> unused_names es) (fifos (Report dg st)),
                    diagnostics := diagnostics (Report dg st) @ concat (map (entry_diags fifo_decls) es)\<rparr>)"
        by (rule IH)
      also have "\<dots> = Some (st\<lparr>fifos := filter (\<lambda>e. fst e \<notin> unused_names ((c, f) # es)) (fifos st),
                    diagnostics := diagnostics st @ concat (map (entry_diags fifo_decls) ((c, f) # es))\<rparr>)"
        using True d by (simp add: u Report_def)
      finally show ?thesis by (simp only: e)
    next
      case False
      then have "validate_loop fifo_decls ((c, f) # es) st = validate_loop fifo_decls es st"
        using step by simp
      also have "\<dots> = Some (st\<lparr>fifos := filter (\<lambda>e. fst e \<notin> unused_names es) (fifos st),
                    diagnostics := diagnostics st @ concat (map (entry_diags fifo_decls) es)\<rparr>)"
        by (rule IH)
      also have "\<dots> = Some (st\<lparr>fifos := filter (\<lambda>e. fst e \<notin> unused_names ((c, f) # es)) (fifos st),
                    diagnostics := diagnostics st @ concat (map (entry_diags fifo_decls) ((c, f) # es))\<rparr>)"
        using False d by (simp add: u)
      finally show ?thesis by (simp only: e)
    qed
  next
    case False
    then have "map_of fifo_decls c \<noteq> None"
      using Cons.prems by (simp add: e)
    then obtain dd where decl: "map_of fifo_decls c = Some dd" by auto
    have "{e \<in> set ((c, f) # es). \<not> has_edge (snd e)} =
            insert (c, f) {e \<in> set es. \<not> has_edge (snd e)}"
      using False by auto
    then have u: "unused_names ((c, f) # es) = insert c (unused_names es)"
      by (simp add: unused_names_def)
    let ?st1 = "(Report (UnusedStream c) st)\<lparr>fifos := AList.delete c (fifos st)\<rparr>"
    have step: "validate_loop fifo_decls ((c, f) # es) st = validate_loop fifo_decls es ?st1"
      using False decl by (cases "consumed_by f"; cases "produced_by f") (simp_all add: has_edge_def)
    have d: "entry_diags fifo_decls (c, f) = [UnusedStream c]"
      using False by (simp add: entry_diags_def)
    have fl: "filter (\<lambda>e. fst e \<notin> unused_names es) (AList.delete c (fifos st)) =
              filter (\<lambda>e. fst e \<notin> insert c (unused_names es)) (fifos st)"
      by (auto simp: AList.delete_eq intro!: filter_cong)
    have "validate_loop fifo_decls es ?st1 =
            Some (?st1\<lparr>fifos := filter (\<lambda>e. fst e \<notin> unused_names es) (fifos ?st1),
                    diagnostics := diagnostics ?st1 @ concat (map (entry_diags fifo_decls) es)\<rparr>)"
      by (rule IH)
    also have "\<dots> = Some (st\<lparr>fifos := filter (\<lambda>e. fst e \<notin> unused_names ((c, f) # es)) (fifos st),
                    diagnostics := diagnostics st @ concat (map (entry_diags fifo_decls) ((c, f) # es))\<rparr>)"
      by (simp add: u d fl Report_def)
    finally show ?thesis using step by (simp only: e)
  qed
qed

lemma unused_names_sort [simp]: "unused_names (sort_key fst xs) = unused_names xs"
  by (simp add: unused_names_def)

lemma validate_fifos_closed_form:
  assumes "\<forall>e \<in> set (fifos st). has_edge (snd e) \<or> map_of fifo_decls (fst e) \<noteq> None"
  shows "validate_fifos fifo_decls st =
           Some (st\<lparr>fifos := filter (\<lambda>e. fst e \<notin> unused_names (fifos st)) (fifos st),
                    diagnostics := diagnostics st @
                      concat (map (entry_diags fifo_decls) (sort_key fst (fifos st)))\<rparr>)"
  unfolding validate_fifos_def
  using validate_loop_closed_form [of "sort_key fst (fifos st)" fifo_decls st] assms
  by simp

lemma map_of_filter_unused:
  assumes "distinct (map fst al)"
  shows "map_of (filter (\<lambda>e. fst e \<notin> unused_names al) al) c =
           (case map_of al c of None \<Rightarrow> None | Some f \<Rightarrow> if has_edge f then Some f else None)"
proof (cases "map_of al c")
  case None
  then have "c \<notin> fst ` set al" by (simp add: map_of_eq_None_iff)
  then have "c \<notin> fst ` set (filter (\<lambda>e. fst e \<notin> unused_names al) al)" by auto
  then have "map_of (filter (\<lambda>e. fst e \<notin> unused_names al) al) c = None"
    by (rule map_of_eq_None_iff [THEN iffD2])
  then show ?thesis using None by simp
next
  case (Some f)
  then have mem: "(c, f) \<in> set al" by (rule map_of_SomeD)
  have uniq: "\<And>g. (c, g) \<in> set al \<Longrightarrow> g = f"
    using assms Some by (metis map_of_is_SomeI option.inject)
  show ?thesis
  proof (cases "has_edge f")
    case True
    then have "c \<notin> unused_names al"
      using uniq by (auto simp: unused_names_def)
    then have "(c, f) \<in> set (filter (\<lambda>e. fst e \<notin> unused_names al) al)"
      using mem by simp
    moreover have "distinct (map fst (filter (\<lambda>e. fst e \<notin> unused_names al) al))"
      using assms by (rule distinct_map_filter)
    ultimately have "map_of (filter (\<lambda>e. fst e \<notin> unused_names al) al) c = Some f"
      by (rule map_of_is_SomeI [rotated])
    then show ?thesis using Some True by simp
  next
    case False
    then have "c \<in> unused_names al"
      using mem by (force simp: unused_names_def)
    then have "c \<notin> fst ` set (filter (\<lambda>e. fst e \<notin> unused_names al) al)" by auto
    then have "map_of (filter (\<lambda>e. fst e \<notin> unused_names al) al) c = None"
      by (rule map_of_eq_None_iff [THEN iffD2])
    then show ?thesis using Some False by simp
  qed
qed

section \<open>Ports, declarations and the state before validation\<close>

lemma add_mmap_meta_frame [simp]:
  "fifos (add_mmap_meta p nm st) = fifos st"
  "diagnostics (add_mmap_meta p nm st) = diagnostics st"
  "tasks (add_mmap_meta p nm st) = tasks st"
  by (simp_all add: add_mmap_meta_def)

lemma fold_add_mmap_meta_frame [simp]:
  "fifos (fold (\<lambda>i. add_mmap_meta p (g i)) js st) = fifos st"
  "diagnostics (fold (\<lambda>i. add_mmap_meta p (g i)) js st) = diagnostics st"
  "tasks (fold (\<lambda>i. add_mmap_meta p (g i)) js st) = tasks st"
  by (induction js arbitrary: st) simp_all

lemma add_port_frame [simp]:
  "fifos (add_port p st) = fifos st"
  "diagnostics (add_port p st) = diagnostics st"
  "tasks (add_port p st) = tasks st"
  by (simp_all add: add_port_def Let_def)

lemma fold_add_port_frame [simp]:
  "fifos (fold add_port ps st) = fifos st"
  "diagnostics (fold add_port ps st) = diagnostics st"
  "tasks (fold add_port ps st) = tasks st"
  by (induction ps arbitrary: st) simp_all

lemma declare_fifo_frame [simp]:
  "ports (declare_fifo nm d st) = ports st"
  "diagnostics (declare_fifo nm d st) = diagnostics st"
  "tasks (declare_fifo nm d st) = tasks st"
  "frt_interface (declare_fifo nm d st) = frt_interface st"
  by (simp_all add: declare_fifo_def)

lemma decls_inv_declare:
  assumes "decls_inv (st, fd)"
  shows "decls_inv (declare_fifo nm d st, AList.update nm vd fd)"
  using assms by (simp add: decls_inv_def declare_fifo_def distinct_update dom_update)

lemma fold_declare_inv:
  assumes "decls_inv s"
  shows "decls_inv (fold (\<lambda>i (st', fd). (declare_fifo (g i) d st', AList.update (g i) vd fd)) js s)"
  using assms
proof (induction js arbitrary: s)
  case Nil
  then show ?case by simp
next
  case (Cons j js)
  obtain st fd where s: "s = (st, fd)" by (cases s)
  show ?case
    using Cons.prems by (simp add: s Cons.IH decls_inv_declare)
qed

lemma fold_declare_frame:
  "ports (fst (fold (\<lambda>i (st', fd). (declare_fifo (g i) d st', AList.update (g i) vd fd)) js s)) = ports (fst s) \<and>
   diagnostics (fst (fold (\<lambda>i (st', fd). (declare_fifo (g i) d st', AList.update (g i) vd fd)) js s)) = diagnostics (fst s) \<and>
   tasks (fst (fold (\<lambda>i (st', fd). (declare_fifo (g i) d st', AList.update (g i) vd fd)) js s)) = tasks (fst s)"
proof (induction js arbitrary: s)
  case Nil
  then show ?case by simp
next
  case (Cons j js)
  obtain st fd where s: "s = (st, fd)" by (cases s)
  show ?case by (simp add: s Cons.IH)
qed

lemma process_decl_inv:
  assumes "decls_inv s"
  shows "decls_inv (process_decl stmt s)"
proof -
  obtain st fd where s: "s = (st, fd)" by (cases s)
  show ?thesis
  proof (cases stmt)
    case (DeclStmt first others)
    show ?thesis
    proof (cases first)
      case OtherDecl
      then show ?thesis using assms DeclStmt by (simp add: s)
    next
      case (Variable vd)
      show ?thesis
      proof (cases "var_type vd")
        case (StreamType e d)
        then show ?thesis
          using assms DeclStmt Variable by (simp add: s decls_inv_declare)
      next
        case (StreamsType e n d)
        then show ?thesis
          using assms DeclStmt Variable fold_declare_inv [of s "\<lambda>i. ArrayNameAt (var_name vd) (int i)" d vd "[0..<nat n]"]
          by (simp add: s)
      next
        case OtherVarType
        then show ?thesis using assms DeclStmt Variable by (simp add: s)
      qed
    qed
  next
    case (ExprWithCleanups ty invokes)
    then show ?thesis using assms by (simp add: s)
  next
    case OtherStmt
    then show ?thesis using assms by (simp add: s)
  qed
qed

lemma process_decl_frame:
  "ports (fst (process_decl stmt s)) = ports (fst s) \<and>
   diagnostics (fst (process_decl stmt s)) = diagnostics (fst s) \<and>
   tasks (fst (process_decl stmt s)) = tasks (fst s)"
proof -
  obtain st fd where s: "s = (st, fd)" by (cases s)
  show ?thesis
  proof (cases stmt)
    case (DeclStmt first others)
    show ?thesis
    proof (cases first)
      case OtherDecl
      then show ?thesis using DeclStmt by (simp add: s)
    next
      case (Variable vd)
      show ?thesis
      proof (cases "var_type vd")
        case (StreamType e d)
        then show ?thesis using DeclStmt Variable by (simp add: s)
      next
        case (StreamsType e n d)
        then show ?thesis
          using DeclStmt Variable fold_declare_frame [of "\<lambda>i. ArrayNameAt (var_name vd) (int i)" d vd "[0..<nat n]" s]
          by (simp add: s)
      next
        case OtherVarType
        then show ?thesis using DeclStmt Variable by (simp add: s)
      qed
    qed
  next
    case (ExprWithCleanups ty invokes)
    then show ?thesis by (simp add: s)
  next
    case OtherStmt
    then show ?thesis by (simp add: s)
  qed
qed

lemma fold_process_decl_inv:
  "decls_inv s \<Longrightarrow> decls_inv (fold process_decl stmts s)"
  by (induction stmts arbitrary: s) (simp_all add: process_decl_inv)

lemma fold_process_decl_frame:
  "ports (fst (fold process_decl stmts s)) = ports (fst s) \<and>
   diagnostics (fst (fold process_decl stmts s)) = diagnostics (fst s) \<and>
   tasks (fst (fold process_decl stmts s)) = tasks (fst s)"
proof (induction stmts arbitrary: s)
  case Nil
  then show ?case by simp
next
  case (Cons a stmts)
  show ?case using Cons.IH [of "process_decl a s"] process_decl_frame [of a s] by simp
qed

lemma extract_graph_cases:
  assumes "extract_graph task func st = Some (st3, fifo_decls)"
  obtains st2 where
    "fold process_decl (body func) (fold add_port (parameters func) (st\<lparr>fifos := []\<rparr>), []) = (st2, fifo_decls)"
    "process_invokes task st2 = Some st3"
proof -
  obtain st2 fd where f: "fold process_decl (body func) (fold add_port (parameters func) (st\<lparr>fifos := []\<rparr>), []) = (st2, fd)"
    by (cases "fold process_decl (body func) (fold add_port (parameters func) (st\<lparr>fifos := []\<rparr>), [])")
  with assms have "process_invokes task st2 = Some st3" "fd = fifo_decls"
    by (auto simp: extract_graph_def Let_def split: bind_splits)
  with f that show ?thesis by simp
qed

lemma extract_graph_invariant:
  assumes "extract_graph task func st = Some (st3, fifo_decls)"
  shows "distinct (map fst (fifos st3))"
    and "\<forall>c. map_of fifo_decls c \<noteq> None \<longrightarrow> map_of (fifos st3) c \<noteq> None"
    and "\<forall>e \<in> set (fifos st3). has_edge (snd e) \<or> map_of fifo_decls (fst e) \<noteq> None"
    and "ports st3 = ports (fold add_port (parameters func) (st\<lparr>fifos := []\<rparr>))"
proof -
  from assms obtain st2 where
    f: "fold process_decl (body func) (fold add_port (parameters func) (st\<lparr>fifos := []\<rparr>), []) = (st2, fifo_decls)"
    and p: "process_invokes task st2 = Some st3"
    by (rule extract_graph_cases)
  have "decls_inv (fold add_port (parameters func) (st\<lparr>fifos := []\<rparr>), [])"
    by (simp add: decls_inv_def)
  then have "decls_inv (st2, fifo_decls)"
    using fold_process_decl_inv f by metis
  then have d2: "distinct (map fst (fifos st2))" and k2: "fst ` set (fifos st2) = fst ` set fifo_decls"
    by (simp_all add: decls_inv_def)
  have ext: "extends st2 st3"
    by (rule process_invokes_closed [OF step_closed_extends p])
  show d3: "distinct (map fst (fifos st3))"
    using ext d2 by (simp add: extends_def)
  show "\<forall>c. map_of fifo_decls c \<noteq> None \<longrightarrow> map_of (fifos st3) c \<noteq> None"
  proof (intro allI impI)
    fix c assume "map_of fifo_decls c \<noteq> None"
    then have "c \<in> fst ` set fifo_decls" by (simp add: map_of_eq_None_iff)
    then have "map_of (fifos st2) c \<noteq> None" using k2 by (simp add: map_of_eq_None_iff)
    then obtain f where "map_of (fifos st2) c = Some f" by auto
    then show "map_of (fifos st3) c \<noteq> None"
      using ext unfolding extends_def by fastforce
  qed
  show "\<forall>e \<in> set (fifos st3). has_edge (snd e) \<or> map_of fifo_decls (fst e) \<noteq> None"
  proof
    fix e assume "e \<in> set (fifos st3)"
    then have "(fst e, snd e) \<in> set (fifos st3)" by simp
    then have "map_of (fifos st3) (fst e) = Some (snd e)"
      by (rule map_of_is_SomeI [OF d3])
    then have "map_of (fifos st2) (fst e) = Some (snd e) \<or> has_edge (snd e)"
      using ext unfolding extends_def by blast
    then show "has_edge (snd e) \<or> map_of fifo_decls (fst e) \<noteq> None"
    proof
      assume "map_of (fifos st2) (fst e) = Some (snd e)"
      then have "fst e \<in> fst ` set (fifos st2)"
        by (metis map_of_eq_None_iff option.distinct(1))
      then show ?thesis using k2 by (simp add: map_of_eq_None_iff)
    qed simp
  qed
  have "ports st3 = ports st2" using ext by (simp add: extends_def)
  also have "\<dots> = ports (fold add_port (parameters func) (st\<lparr>fifos := []\<rparr>))"
    using fold_process_decl_frame [of "body func" "(fold add_port (parameters func) (st\<lparr>fifos := []\<rparr>), [])"] f
    by simp
  finally show "ports st3 = ports (fold add_port (parameters func) (st\<lparr>fifos := []\<rparr>))" .
qed





lemma ProcessUpperLevelTask_closed_form:
  assumes "extract_graph task func st = Some (st3, fifo_decls)"
  shows "ProcessUpperLevelTask task func st =
           Some (st3\<lparr>fifos := filter (\<lambda>e. fst e \<notin> unused_names (fifos st3)) (fifos st3),
                     diagnostics := diagnostics st3 @
                       concat (map (entry_diags fifo_decls) (sort_key fst (fifos st3)))\<rparr>)"
  using assms validate_fifos_closed_form [OF extract_graph_invariant(3) [OF assms]]
  by (simp add: ProcessUpperLevelTask_def)



section \<open>End-of-task validation, channel conservation and ports\<close>









lemma ProcessUpperLevelTask_cases:
  assumes "ProcessUpperLevelTask task func st = Some st'"
  obtains st3 fifo_decls where "extract_graph task func st = Some (st3, fifo_decls)"
  using assms by (auto simp: ProcessUpperLevelTask_def split: bind_splits)

lemma ProcessUpperLevelTask_ports:
  assumes "ProcessUpperLevelTask task func st = Some st'"
  shows "ports st' = ports (fold add_port (parameters func) (st\<lparr>fifos := []\<rparr>))"
proof -
  from assms obtain st3 fifo_decls where g: "extract_graph task func st = Some (st3, fifo_decls)"
    by (rule ProcessUpperLevelTask_cases)
  have "ports st' = ports st3"
    using assms ProcessUpperLevelTask_closed_form [OF g] by auto
  then show ?thesis using extract_graph_invariant(4) [OF g] by simp
qed







text \<open>
  C7. For a task with the parameters \<^verbatim>\<open>(mmap<float> a, int n, ostream<int> o)\<close> the
  processing adds exactly two ports: \<open>a\<close> with category \<^verbatim>\<open>mmap\<close> and \<open>n\<close> with category
  \<^verbatim>\<open>scalar\<close>; the stream parameter \<open>o\<close> adds none.
\<close>

theorem port_derivation:
  assumes "parameters func = [pa, pn, po]"
    and "tapa_class (param_type pa) = Some c_mmap"
    and "tapa_class (param_type pn) = None"
    and "tapa_class (param_type po) = Some c_ostream"
    and "ProcessUpperLevelTask task func st = Some st'"
  shows "ports st' = ports st @
           [\<lparr>port_name = param_name pa, port_cat = ''mmap'',
             port_width = elem_width (param_type pa), port_type = elem_type (param_type pa) @ ''*''\<rparr>,
            \<lparr>port_name = param_name pn, port_cat = ''scalar'',
             port_width = type_width (param_type pn), port_type = as_string (param_type pn)\<rparr>]"
  using ProcessUpperLevelTask_ports [OF assms(5)] assms(1-4)
  by (simp add: add_port_def add_mmap_meta_def IsTapaType_def IsStreamInterface_def Let_def)

lemma ex_top_result:
  "ProcessUpperLevelTask ex_top_invokes ex_top ex_state =
     Some \<lparr>frt_interface = None,
           ports = [\<lparr>port_name = ''a'', port_cat = ''mmap'', port_width = 32, port_type = ''float*''\<rparr>,
                    \<lparr>port_name = ''n'', port_cat = ''scalar'', port_width = 32, port_type = ''int''\<rparr>],
           fifos = [(''o'', \<lparr>depth = None, produced_by = Some (''Producer'', 0),
                             consumed_by = None\<rparr>)],
           tasks = [(''Producer'', [\<lparr>inst_step = 0, inst_name = None,
                                      inst_args = [(''out'', ''ostream'', ''o'')]\<rparr>])],
           diagnostics = []\<rparr>"
  by code_simp

theorem port_derivation_witness:
  "(\<exists>pa pn po st'.
      parameters ex_top = [pa, pn, po] \<and> tapa_class (param_type pa) = Some c_mmap \<and>
      tapa_class (param_type pn) = None \<and> tapa_class (param_type po) = Some c_ostream \<and>
      ProcessUpperLevelTask ex_top_invokes ex_top ex_state = Some st' \<and>
      ports st' =
        [\<lparr>port_name = ''a'', port_cat = ''mmap'', port_width = 32, port_type = ''float*''\<rparr>,
         \<lparr>port_name = ''n'', port_cat = ''scalar'', port_width = 32, port_type = ''int''\<rparr>] \<and>
      map fst (fifos st') = [''o''])"
proof -
  have p: "parameters ex_top =
      [\<lparr>param_name = ''a'',
        param_type = \<lparr>tapa_class = Some c_mmap, as_string = ''tapa::mmap<float>'', type_width = 64,
                      elem_type = ''float'', elem_width = 32, elem_const = False,
                      template_arg1 = None, array_size = 0\<rparr>\<rparr>,
       \<lparr>param_name = ''n'', param_type = ex_type None ''int'' None\<rparr>,
       \<lparr>param_name = ''o'', param_type = ex_type (Some c_ostream) ''tapa::ostream<int> &'' None\<rparr>]"
    by (simp add: ex_top_def)
  show ?thesis
    using port_derivation [OF p _ _ _ ex_top_result]
    by (simp add: ex_top_result p ex_type_def)
qed

section \<open>Host glue: access mode\<close>

text \<open>
  C8 (as amended). For every mmap or async-mmap parameter (single or array) the host glue
  selects the access mode from the const-qualification of the element type alone:
  \<^verbatim>\<open>WriteOnly\<close> when the element type is const and \<^verbatim>\<open>ReadWrite\<close> otherwise, for every
  element of the parameter. \<^verbatim>\<open>ReadOnly\<close> is never selected.
\<close>

theorem access_mode_from_constness:
  assumes "IsTapaType (param_type p) [c_mmap, c_async_mmap, c_mmaps, c_async_mmaps]"
  shows "frt_param GetArrayElem p =
           (if IsTapaType (param_type p) [c_mmaps, c_async_mmaps] then
              map (\<lambda>i. add_param (if elem_const (param_type p) then ''WriteOnly'' else ''ReadWrite'')
                         (GetArrayElem (param_name p) (int i)) (ArrayNameAt (param_name p) (int i)))
                [0..<to_uint64 (array_size (param_type p))]
            else [add_param (if elem_const (param_type p) then ''WriteOnly'' else ''ReadWrite'')
                    (param_name p) (param_name p)]) \<and>
         frt_direction (elem_const (param_type p)) \<noteq> ''ReadOnly''"
  using assms by (simp add: frt_param_def frt_direction_def Let_def)

theorem access_mode_from_constness_witness:
  "IsTapaType (param_type ex_const_mmap) [c_mmap, c_async_mmap, c_mmaps, c_async_mmaps] \<and>
   frt_param (\<lambda>nm i. nm @ ''_'' @ to_string_int i) ex_const_mmap =
     [add_param ''WriteOnly'' ''b'' ''b'']"
proof -
  have h: "IsTapaType (param_type ex_const_mmap) [c_mmap, c_async_mmap, c_mmaps, c_async_mmaps]"
    by (simp add: ex_const_mmap_def IsTapaType_def)
  show ?thesis
    using access_mode_from_constness [OF h, of "\<lambda>nm i. nm @ ''_'' @ to_string_int i"] h
    by (simp add: ex_const_mmap_def IsTapaType_def)
qed

text \<open>
  Of the three modes only two are ever selected: a const element type gives
  \<^verbatim>\<open>WriteOnly\<close>, any other \<^verbatim>\<open>ReadWrite\<close>, and neither gives \<^verbatim>\<open>ReadOnly\<close>.
\<close>

theorem access_mode_counterexample:
  "frt_direction True = ''WriteOnly'' \<and> frt_direction False = ''ReadWrite'' \<and>
   frt_direction True \<noteq> ''ReadOnly'' \<and> frt_direction False \<noteq> ''ReadOnly''"
  by (simp add: frt_direction_def)

section \<open>Duplicate edges\<close>

lemma not_has_edge: "\<not> has_edge f \<longleftrightarrow> produced_by f = None \<and> consumed_by f = None"
  unfolding has_edge_def by (simp only: de_Morgan_disj not_not)

lemma validate_loop_Some_pre:
  "validate_loop fifo_decls es st = Some st' \<Longrightarrow>
   \<forall>e \<in> set es. has_edge (snd e) \<or> map_of fifo_decls (fst e) \<noteq> None"
proof (induction es arbitrary: st)
  case Nil
  then show ?case by simp
next
  case (Cons e es)
  obtain c f where e: "e = (c, f)" by (cases e)
  show ?case
  proof (cases "has_edge f")
    case True
    then obtain st1 where "validate_loop fifo_decls es st1 = Some st'"
      using Cons.prems unfolding e
      by (cases "consumed_by f"; cases "produced_by f") (auto simp: has_edge_def Let_def)
    then show ?thesis using Cons.IH True by (simp add: e)
  next
    case False
    then have n: "consumed_by f = None" "produced_by f = None" by (simp_all only: not_has_edge)
    then obtain d where d: "map_of fifo_decls c = Some d"
      using Cons.prems unfolding e by (cases "map_of fifo_decls c") simp_all
    then obtain st1 where "validate_loop fifo_decls es st1 = Some st'"
      using Cons.prems n unfolding e by simp
    then show ?thesis using Cons.IH d by (simp add: e)
  qed
qed

lemma validate_fifos_retains:
  assumes "validate_fifos fifo_decls st = Some st'" and "distinct (map fst (fifos st))"
    and "map_of (fifos st) c = Some f" and "has_edge f"
  shows "map_of (fifos st') c = Some f"
proof -
  have "\<forall>e \<in> set (sort_key fst (fifos st)). has_edge (snd e) \<or> map_of fifo_decls (fst e) \<noteq> None"
    using assms(1) unfolding validate_fifos_def by (rule validate_loop_Some_pre)
  then have "\<forall>e \<in> set (fifos st). has_edge (snd e) \<or> map_of fifo_decls (fst e) \<noteq> None"
    by simp
  from validate_fifos_closed_form [OF this] assms(1)
  have "fifos st' = filter (\<lambda>e. fst e \<notin> unused_names (fifos st)) (fifos st)"
    by auto
  then show ?thesis
    using map_of_filter_unused [OF assms(2), of c] assms(3,4) by simp
qed


lemma size_minus_one_length:
  assumes "insts \<noteq> []" "length insts < 2 ^ 64"
  shows "size_minus_one (length insts) = length insts - 1"
proof -
  have pos: "0 < length insts" using assms(1) by simp
  have "int (length insts) < 2 ^ 64"
    using assms(2) by (metis of_nat_less_iff of_nat_numeral of_nat_power)
  then have "(int (length insts) - 1) mod 2 ^ 64 = int (length insts) - 1"
    using pos by (intro mod_pos_pos_trivial) simp_all
  then show ?thesis using pos by (simp add: size_minus_one_def)
qed

lemma tasks_size_Some: "map_of (tasks st) tn = Some insts \<Longrightarrow> tasks_size st tn = length insts"
  by (simp add: tasks_size_def)

lemma lookup_fifo_Some: "map_of (fifos st) a = Some f \<Longrightarrow> lookup_fifo st a = f"
  by (simp add: lookup_fifo_def)

lemma register_consumer_distinct:
  "distinct (map fst (fifos st)) \<Longrightarrow> distinct (map fst (fifos (register_consumer tn an a st)))"
  by (simp add: register_consumer_fifos distinct_update)

lemma register_producer_distinct:
  "distinct (map fst (fifos st)) \<Longrightarrow> distinct (map fst (fifos (register_producer tn an a st)))"
  by (simp add: register_producer_fifos distinct_update)

text \<open>
  C9. When a channel \<open>a\<close> that already has a \<^verbatim>\<open>consumed_by\<close> edge is registered as consumed
  again by the latest instance of task \<open>tn\<close> (the last of its \<open>insts\<close>), the error
  \<^verbatim>\<open>consumed more than once\<close> is reported and the edge is overwritten with \<open>tn\<close> and the index
  of that instance; the validation keeps this entry, so the final metadata records the later
  instance, and the \<^verbatim>\<open>fifos\<close> object has changed unless the old edge was the same pair.
  The same holds for \<^verbatim>\<open>produced_by\<close>.
\<close>

theorem duplicate_edge_overwritten:
  assumes "map_of (fifos st) a = Some f" and "a \<noteq> []" and "distinct (map fst (fifos st))"
    and "map_of (tasks st) tn = Some insts" and "insts \<noteq> []" and "length insts < 2 ^ 64"
  shows "(consumed_by f \<noteq> None \<longrightarrow>
            diagnostics (register_consumer tn an a st) = diagnostics st @ [ChannelConsumedTwice a] \<and>
            level (ChannelConsumedTwice a) = Error \<and>
            map_of (fifos (register_consumer tn an a st)) a =
              Some (f\<lparr>consumed_by := Some (tn, length insts - 1)\<rparr>) \<and>
            (consumed_by f \<noteq> Some (tn, length insts - 1) \<longrightarrow>
               fifos (register_consumer tn an a st) \<noteq> fifos st) \<and>
            (\<forall>fifo_decls st'. validate_fifos fifo_decls (register_consumer tn an a st) = Some st' \<longrightarrow>
               map_of (fifos st') a = Some (f\<lparr>consumed_by := Some (tn, length insts - 1)\<rparr>))) \<and>
         (produced_by f \<noteq> None \<longrightarrow>
            diagnostics (register_producer tn an a st) = diagnostics st @ [ChannelProducedTwice a] \<and>
            level (ChannelProducedTwice a) = Error \<and>
            map_of (fifos (register_producer tn an a st)) a =
              Some (f\<lparr>produced_by := Some (tn, length insts - 1)\<rparr>) \<and>
            (produced_by f \<noteq> Some (tn, length insts - 1) \<longrightarrow>
               fifos (register_producer tn an a st) \<noteq> fifos st) \<and>
            (\<forall>fifo_decls st'. validate_fifos fifo_decls (register_producer tn an a st) = Some st' \<longrightarrow>
               map_of (fifos st') a = Some (f\<lparr>produced_by := Some (tn, length insts - 1)\<rparr>)))"
proof -
  have ord: "size_minus_one (tasks_size st tn) = length insts - 1"
    using assms(4-6) by (simp add: tasks_size_Some size_minus_one_length)
  have lf: "lookup_fifo st a = f" using assms(1) by (rule lookup_fifo_Some)
  let ?c = "register_consumer tn an a st" and ?p = "register_producer tn an a st"
  have mc: "map_of (fifos ?c) a = Some (f\<lparr>consumed_by := Some (tn, length insts - 1)\<rparr>)"
    using assms(2) by (simp add: register_consumer_fifos update_conv lf ord)
  have mp: "map_of (fifos ?p) a = Some (f\<lparr>produced_by := Some (tn, length insts - 1)\<rparr>)"
    using assms(2) by (simp add: register_producer_fifos update_conv lf ord)
  have dc: "consumed_by f \<noteq> None \<Longrightarrow> diagnostics ?c = diagnostics st @ [ChannelConsumedTwice a]"
    using assms(2) by (simp add: register_consumer_diagnostics lf)
  have dp: "produced_by f \<noteq> None \<Longrightarrow> diagnostics ?p = diagnostics st @ [ChannelProducedTwice a]"
    using assms(2) by (simp add: register_producer_diagnostics lf)
  have cc: "fifos ?c \<noteq> fifos st" if "consumed_by f \<noteq> Some (tn, length insts - 1)"
  proof
    assume "fifos ?c = fifos st"
    then have "map_of (fifos ?c) a = Some f" using assms(1) by simp
    with mc have "consumed_by (f\<lparr>consumed_by := Some (tn, length insts - 1)\<rparr>) = consumed_by f"
      by simp
    with that show False by simp
  qed
  have cp: "fifos ?p \<noteq> fifos st" if "produced_by f \<noteq> Some (tn, length insts - 1)"
  proof
    assume "fifos ?p = fifos st"
    then have "map_of (fifos ?p) a = Some f" using assms(1) by simp
    with mp have "produced_by (f\<lparr>produced_by := Some (tn, length insts - 1)\<rparr>) = produced_by f"
      by simp
    with that show False by simp
  qed
  have vc: "map_of (fifos st') a = Some (f\<lparr>consumed_by := Some (tn, length insts - 1)\<rparr>)"
    if "validate_fifos fifo_decls ?c = Some st'" for fifo_decls st'
    by (rule validate_fifos_retains [OF that register_consumer_distinct [OF assms(3)] mc])
       (simp add: has_edge_def)
  have vp: "map_of (fifos st') a = Some (f\<lparr>produced_by := Some (tn, length insts - 1)\<rparr>)"
    if "validate_fifos fifo_decls ?p = Some st'" for fifo_decls st'
    by (rule validate_fifos_retains [OF that register_producer_distinct [OF assms(3)] mp])
       (simp add: has_edge_def)
  show ?thesis
    using mc mp dc dp cc cp vc vp by (intro conjI impI allI) simp_all
qed

theorem duplicate_edge_overwritten_witness:
  "map_of (fifos ex_connected) ''c'' = Some ex_connected_fifo \<and> ''c'' \<noteq> [] \<and>
   distinct (map fst (fifos ex_connected)) \<and>
   map_of (tasks ex_connected) ''Consumer'' =
     Some [ex_instance [(''in'', ''istream'', ''c'')], ex_instance []] \<and>
   consumed_by ex_connected_fifo \<noteq> None \<and> produced_by ex_connected_fifo \<noteq> None \<and>
   diagnostics (register_consumer ''Consumer'' ''c'' ''c'' ex_connected) = [ChannelConsumedTwice ''c''] \<and>
   map_of (fifos (register_consumer ''Consumer'' ''c'' ''c'' ex_connected)) ''c'' =
     Some (ex_connected_fifo\<lparr>consumed_by := Some (''Consumer'', 1)\<rparr>) \<and>
   fifos (register_consumer ''Consumer'' ''c'' ''c'' ex_connected) \<noteq> fifos ex_connected"
proof -
  have h: "map_of (fifos ex_connected) ''c'' = Some ex_connected_fifo" "''c'' \<noteq> []"
    "distinct (map fst (fifos ex_connected))"
    "map_of (tasks ex_connected) ''Consumer'' =
       Some [ex_instance [(''in'', ''istream'', ''c'')], ex_instance []]"
    "[ex_instance [(''in'', ''istream'', ''c'')], ex_instance []] \<noteq> []"
    "length [ex_instance [(''in'', ''istream'', ''c'')], ex_instance []] < 2 ^ 64"
    by (simp_all add: ex_connected_def)
  have e: "consumed_by ex_connected_fifo \<noteq> None" "produced_by ex_connected_fifo \<noteq> None"
    "consumed_by ex_connected_fifo \<noteq> Some (''Consumer'', 1)"
    "diagnostics ex_connected = []"
    by (simp_all add: ex_connected_fifo_def ex_connected_def)
  show ?thesis
    using duplicate_edge_overwritten [OF h, of "''c''"] h e by simp
qed

section \<open>The instance name\<close>

text \<open>
  C3 (as amended). With explicit naming, a string literal at runtime argument 1 (directly
  after the callee) sets the name of the latest instance of the task and changes nothing
  else: no argument entry, no channel, no diagnostic. A string literal at any other index,
  or without explicit naming, is reported as an unexpected argument and sets no name.
\<close>

theorem instance_name_slot:
  "process_arg step has_name is_vec i_vec i (StringLiteral s) ((tn, task), st) =
     (if i = 1 \<and> has_name then
        (case map_of (tasks st) tn of
           None \<Rightarrow> None
         | Some insts \<Rightarrow>
             if insts = [] then None
             else Some ((tn, task),
                        st\<lparr>tasks := AList.update tn
                              (butlast insts @ [(last insts)\<lparr>inst_name := Some s\<rparr>]) (tasks st)\<rparr>))
      else Some ((tn, task), Report (UnexpectedArgument ''StringLiteral'') st))"
  by (simp add: process_arg_def update_last_instance_def split: option.splits)

theorem instance_name_slot_witness:
  "process_arg 0 True False 0 1 (StringLiteral ''load'') ((''Producer'', None), ex_connected) =
     Some ((''Producer'', None),
           ex_connected\<lparr>tasks :=
             [(''Producer'', [ex_instance [(''out'', ''ostream'', ''c'')],
                              (ex_instance [])\<lparr>inst_name := Some ''load''\<rparr>]),
              (''Consumer'', [ex_instance [(''in'', ''istream'', ''c'')], ex_instance []])]\<rparr>)"
  using instance_name_slot [of 0 True False 0 1 "''load''" "''Producer''" None ex_connected]
  by (simp add: ex_connected_def)

text \<open>
  A string literal in the last position is not taken as the name: at index 2 it is reported as
  an unexpected argument; and \<^verbatim>\<open>invoke(Producer, c, "load")\<close> with explicit naming does not
  return, because argument 1 is looked up as parameter \<open>1 - 2\<close>. With the literal directly
  after the callee the instance is named and \<open>c\<close> is bound.
\<close>

theorem instance_name_counterexample:
  "process_arg 0 True False 0 2 (StringLiteral ''load'') ((''Producer'', None), ex_connected) =
     Some ((''Producer'', None), Report (UnexpectedArgument ''StringLiteral'') ex_connected) \<and>
   process_invoke (ex_named_invoke ex_Producer [ex_stream_ref ''c'', StringLiteral ''load'']) ex_state
     = None \<and>
   process_invoke (ex_named_invoke ex_Producer [StringLiteral ''load'', ex_stream_ref ''c'']) ex_state
     = Some \<lparr>frt_interface = None, ports = [],
             fifos = [(''c'', \<lparr>depth = None, produced_by = Some (''Producer'', 0),
                               consumed_by = None\<rparr>)],
             tasks = [(''Producer'', [\<lparr>inst_step = 0, inst_name = Some ''load'',
                                        inst_args = [(''out'', ''ostream'', ''c'')]\<rparr>])],
             diagnostics = []\<rparr>"
  by code_simp

section \<open>Vectorized invocations over arrays\<close>










lemma ex_vector_result:
  "ProcessUpperLevelTask ex_vector_invokes ex_vector ex_state =
     Some \<lparr>frt_interface = None, ports = [],
           fifos = [(''ss[0]'', \<lparr>depth = Some 2, produced_by = None,
                                 consumed_by = Some (''Consumer'', 3)\<rparr>),
                    (''ss[1]'', \<lparr>depth = Some 2, produced_by = None,
                                 consumed_by = Some (''Consumer'', 4)\<rparr>),
                    (''ss[2]'', \<lparr>depth = Some 2, produced_by = None,
                                 consumed_by = Some (''Consumer'', 2)\<rparr>)],
           tasks = [(''Consumer'',
                     [\<lparr>inst_step = 0, inst_name = None, inst_args = [(''in'', ''istream'', ''ss[0]'')]\<rparr>,
                      \<lparr>inst_step = 0, inst_name = None, inst_args = [(''in'', ''istream'', ''ss[1]'')]\<rparr>,
                      \<lparr>inst_step = 0, inst_name = None, inst_args = [(''in'', ''istream'', ''ss[2]'')]\<rparr>,
                      \<lparr>inst_step = 0, inst_name = None, inst_args = [(''in'', ''istream'', ''ss[0]'')]\<rparr>,
                      \<lparr>inst_step = 0, inst_name = None, inst_args = [(''in'', ''istream'', ''ss[1]'')]\<rparr>])],
           diagnostics =
             [VectorIndexWraparound ''3'' ''ss'' ''0'' ''tapa::streams<int, 3, 2>'',
              ChannelConsumedTwice ''ss[0]'',
              VectorIndexWraparound ''4'' ''ss'' ''1'' ''tapa::streams<int, 3, 2>'',
              ChannelConsumedTwice ''ss[1]'',
              ConsumedNotProduced ''ss[0]'', ConsumedNotProduced ''ss[1]'',
              ConsumedNotProduced ''ss[2]'']\<rparr>"
  by code_simp


section \<open>Duplicate producers\<close>



lemma extends_distinct:
  "extends st st' \<Longrightarrow> distinct (map fst (fifos st)) \<Longrightarrow> distinct (map fst (fifos st'))"
  by (simp add: extends_def)
















section \<open>Replicas\<close>













end
